theory Spec2Isabelle
  imports Main
begin

section \<open>Values of the program\<close>

text \<open>
  The program is \<^verbatim>\<open>packages/next/src/cli/next-dev.ts\<close>: the supervisor of the
  development server's worker process. A thrown value is a string. A JavaScript
  value of type \<^verbatim>\<open>string | undefined\<close> is a \<open>string option\<close>; it is truthy when
  it is defined and not the empty string.
\<close>

type_synonym err = string

definition truthy :: "string option \<Rightarrow> bool" where
  "truthy v = (case v of None \<Rightarrow> False | Some s \<Rightarrow> s \<noteq> [])"

text \<open>The two fields of the resolved configuration that the file reads.\<close>

record NextConfigComplete =
  distDir :: string
  experimental_serverActions :: bool

record certificate =
  key :: string
  cert :: string

text \<open>The validated command line (the \<^verbatim>\<open>validArgs\<close> table of \<^verbatim>\<open>nextDev\<close>).\<close>

record cli_args =
  arg_help :: "bool option"
  arg_port :: "int option"
  arg_hostname :: "string option"
  arg_turbo :: "bool option"
  arg_https :: "bool option"
  arg_https_key :: "string option"
  arg_https_cert :: "string option"
  arg_test_proxy :: "bool option"
  arg_upload_trace :: "string option"
  arg_positional :: "string list"

record StartServerOptions =
  so_dir :: string
  so_port :: int
  so_allowRetry :: bool
  so_isDev :: bool
  so_hostname :: "string option"
  so_isExperimentalTestProxy :: "bool option"
  so_envInfo :: "string list"
  so_expFeatureInfo :: "string list"
  so_selfSignedCertificate :: "certificate option"

record session_stopped =
  cliCommand :: string
  turboFlag :: bool
  durationMilliseconds :: int
  ev_pagesDir :: bool
  ev_appDir :: bool

record upload_trace =
  ut_traceUploadUrl :: string
  ut_mode :: string
  ut_isTurboSession :: bool
  ut_projectDir :: "string option"
  ut_distDir :: string

datatype telemetry = GlobalTelemetry | NewTelemetry string

section \<open>Processes, listeners and effects\<close>

datatype pevent = EvExit | SIGINT | SIGTERM | UncaughtException | UnhandledRejection

text \<open>
  The two functions the file registers as listeners: the module-level
  \<^verbatim>\<open>handleSessionStop\<close>, and the synchronous \<^verbatim>\<open>cleanup\<close> closure of
  \<^verbatim>\<open>createRouterWorker\<close>, one per created worker.
\<close>

datatype listener = HandleSessionStop | Cleanup nat

datatype effect =
    ConsoleLog string
  | ConsoleError err
  | LogInfo string
  | LogWarn string
  | StdoutWrite string
  | LoadConfigCall
  | TelemetryRecord telemetry session_stopped bool
  | TelemetryFlushDetached string "string option"
  | UploadTrace upload_trace
  | WorkerNew nat
  | CreateSelfSignedCertificate "string option"
  | StartServerCall nat StartServerOptions
  | PreflightCall bool
  | WorkerEndCall nat
  | ChildKill nat string
  | UnhandledRejectionOf err
  | NextDevRejected err

datatype wstatus = Created | Starting | Serving | Ending | Ended

text \<open>
  A jest-worker \<^verbatim>\<open>Worker\<close>: the options the file passes, the entries of
  \<^verbatim>\<open>_workerPool._workers\<close> (each with its \<^verbatim>\<open>_child\<close>, or none), and where the
  worker is in its life.
\<close>

record router_worker =
  w_numWorkers :: nat
  w_maxRetries :: nat
  w_prebundledReact :: string
  w_pool :: "nat option list"
  w_status :: wstatus

record child_process =
  c_exitListeners :: "listener list"
  c_signals :: "string list"
  c_exited :: bool

text \<open>The pending continuation of an async function suspended at an \<^verbatim>\<open>await\<close>.\<close>

datatype task =
    DevAwaitFileExists
  | DevAwaitLoadConfig
  | DevAwaitTurbo
  | StopAwaitLoadConfig
  | RunAwaitCreate bool "NextConfigComplete option"
  | RunAwaitCert bool nat
  | RunAwaitStart bool nat
  | RunAwaitPreflight bool nat
  | RestartAwaitCleanup nat

record pstate =
  \<comment> \<open>module-level variables\<close>
  dir :: "string option"
  config :: "NextConfigComplete option"
  isTurboSession :: bool
  traceUploadUrl :: "string option"
  sessionStopHandled :: bool
  sessionStarted :: int
  \<comment> \<open>variables of the \<^verbatim>\<open>nextDev\<close> closure\<close>
  nd_args :: cli_args
  nd_port :: int
  nd_allowRetry :: bool
  nd_host :: "string option"
  nd_expFeatureInfo :: "string list"
  devServerOptions :: StartServerOptions
  watching :: bool
  runningServer :: "nat option"
  \<comment> \<open>the process and what it owns\<close>
  penv :: "string \<Rightarrow> string option"
  tg_telemetry :: bool
  tg_pagesDir :: "string option"
  tg_appDir :: "string option"
  plisteners :: "(pevent \<times> listener) list"
  workers :: "router_worker list"
  children :: "child_process list"
  tasks :: "task list"
  rejections :: "err list"
  effects :: "effect list"
  exited :: "int option"
  \<comment> \<open>the file system: what \<^verbatim>\<open>loadConfig\<close> resolves when it is called now\<close>
  diskConfig :: NextConfigComplete
  diskFeatures :: "string list"

text \<open>
  The collaborators that are not in this file. The pure ones are functions; for
  a call that may throw, the field says whether it does.
\<close>

record ext =
  path_join :: "string \<Rightarrow> string \<Rightarrow> string"
  path_resolve :: "string \<Rightarrow> string"
  path_basename :: "string \<Rightarrow> string"
  getPort :: "cli_args \<Rightarrow> (string \<Rightarrow> string option) \<Rightarrow> int"
  getProjectDir :: "string option \<Rightarrow> string"
  loadedEnvFiles :: "string list"
  helpText :: string
  require_throws :: "err option"
  newTelemetry_throws :: "err option"
  findPagesDir :: "string option \<Rightarrow> err + (string option \<times> string option)"
  record_throws :: "err option"
  flushDetached_throws :: "err option"
  uploadTrace_throws :: "err option"
  date_now :: int

definition emit_effect :: "effect \<Rightarrow> pstate \<Rightarrow> pstate" where
  "emit_effect e st = st\<lparr>effects := effects st @ [e]\<rparr>"

definition suspend :: "task \<Rightarrow> pstate \<Rightarrow> pstate" where
  "suspend t st = st\<lparr>tasks := tasks st @ [t]\<rparr>"

subsection \<open>Event emitters\<close>

text \<open>
  \<^verbatim>\<open>emitter.on\<close> appends to the listener array. \<^verbatim>\<open>emitter.off\<close> removes at most
  one instance of the listener, the most recently added one, and does nothing
  when the listener is not registered.
\<close>

definition remove_last :: "'a \<Rightarrow> 'a list \<Rightarrow> 'a list" where
  "remove_last a xs = rev (remove1 a (rev xs))"

definition listeners_of :: "pevent \<Rightarrow> pstate \<Rightarrow> listener list" where
  "listeners_of e st = map snd (filter (\<lambda>p. fst p = e) (plisteners st))"

definition process_on :: "pevent \<Rightarrow> listener \<Rightarrow> pstate \<Rightarrow> pstate" where
  "process_on e l st = st\<lparr>plisteners := plisteners st @ [(e, l)]\<rparr>"

definition process_off :: "pevent \<Rightarrow> listener \<Rightarrow> pstate \<Rightarrow> pstate" where
  "process_off e l st = st\<lparr>plisteners := remove_last (e, l) (plisteners st)\<rparr>"

definition child_upd :: "nat \<Rightarrow> (child_process \<Rightarrow> child_process) \<Rightarrow> pstate \<Rightarrow> pstate" where
  "child_upd c f st =
     (if c < length (children st) then st\<lparr>children := (children st)[c := f (children st ! c)]\<rparr>
      else st)"

definition child_on_exit :: "listener \<Rightarrow> nat \<Rightarrow> pstate \<Rightarrow> pstate" where
  "child_on_exit l c = child_upd c (\<lambda>ch. ch\<lparr>c_exitListeners := c_exitListeners ch @ [l]\<rparr>)"

definition child_off_exit :: "listener \<Rightarrow> nat \<Rightarrow> pstate \<Rightarrow> pstate" where
  "child_off_exit l c = child_upd c (\<lambda>ch. ch\<lparr>c_exitListeners := remove_last l (c_exitListeners ch)\<rparr>)"

definition child_kill :: "string \<Rightarrow> nat \<Rightarrow> pstate \<Rightarrow> pstate" where
  "child_kill sg c st =
     emit_effect (ChildKill c sg) (child_upd c (\<lambda>ch. ch\<lparr>c_signals := c_signals ch @ [sg]\<rparr>) st)"

text \<open>The \<^verbatim>\<open>_child\<close>s of \<^verbatim>\<open>(worker as any)._workerPool?._workers || []\<close>.\<close>

definition pool_children :: "nat \<Rightarrow> pstate \<Rightarrow> nat list" where
  "pool_children w st =
     (if w < length (workers st) then List.map_filter id (w_pool (workers st ! w)) else [])"

definition worker_upd :: "nat \<Rightarrow> (router_worker \<Rightarrow> router_worker) \<Rightarrow> pstate \<Rightarrow> pstate" where
  "worker_upd w f st =
     (if w < length (workers st) then st\<lparr>workers := (workers st)[w := f (workers st ! w)]\<rparr>
      else st)"


section \<open>Process exit\<close>

text \<open>
  \<^verbatim>\<open>process.exit(code)\<close> in Node.js stores the code in \<^verbatim>\<open>process.exitCode\<close>,
  emits \<^verbatim>\<open>'exit'\<close> unless the process is already exiting, and then ends the
  process with \<^verbatim>\<open>process.exitCode\<close>. A listener of \<^verbatim>\<open>'exit'\<close> that itself
  calls \<^verbatim>\<open>process.exit(c)\<close> therefore ends the process at once, with \<open>c\<close>.
  The functions that call \<^verbatim>\<open>process.exit\<close> take it as their first argument:
  \<open>reallyExit\<close> while \<^verbatim>\<open>'exit'\<close> is being emitted, \<open>process_exit\<close> otherwise.
\<close>

definition reallyExit :: "int \<Rightarrow> pstate \<Rightarrow> pstate" where
  "reallyExit code st = st\<lparr>exited := Some code\<rparr>"

text \<open>The synchronous \<^verbatim>\<open>cleanup\<close> of \<^verbatim>\<open>createRouterWorker\<close> (lines 157-164).\<close>

definition cleanup :: "(int \<Rightarrow> pstate \<Rightarrow> pstate) \<Rightarrow> nat \<Rightarrow> pstate \<Rightarrow> pstate" where
  "cleanup exit w st = exit 0 (fold (child_kill ''SIGINT'') (pool_children w st) st)"

section \<open>The session stop handler\<close>

definition cursor_show :: string where
  "cursor_show = CHR 0x1B # ''[?25h''"

definition newline :: string where
  "newline = [CHR 0x0A]"

definition reject :: "err \<Rightarrow> pstate \<Rightarrow> pstate" where
  "reject e st = st\<lparr>rejections := rejections st @ [e]\<rparr>"

text \<open>
  Lines 58-64: the telemetry recorder, the one of \<^verbatim>\<open>traceGlobals\<close> or a new one.
  \<^verbatim>\<open>path.join\<close> throws when \<^verbatim>\<open>dir\<close> is undefined.
\<close>

definition telemetry_instance :: "ext \<Rightarrow> NextConfigComplete \<Rightarrow> pstate \<Rightarrow> err + telemetry" where
  "telemetry_instance x c st =
     (if tg_telemetry st then Inr GlobalTelemetry
      else (case dir st of
              None \<Rightarrow> Inl ''TypeError''
            | Some d \<Rightarrow>
                (case newTelemetry_throws x of
                   Some e \<Rightarrow> Inl e
                 | None \<Rightarrow> Inr (NewTelemetry (path_join x d (distDir c))))))"

text \<open>Lines 66-76: the two routing conventions, detected when \<^verbatim>\<open>traceGlobals\<close> lacks one.\<close>

definition routing_conventions :: "ext \<Rightarrow> pstate \<Rightarrow> err + bool \<times> bool" where
  "routing_conventions x st =
     (if tg_pagesDir st = None \<or> tg_appDir st = None
      then (case findPagesDir x (dir st) of
              Inl e \<Rightarrow> Inl e
            | Inr (p, a) \<Rightarrow> Inr (truthy p, truthy a))
      else Inr (truthy (tg_pagesDir st), truthy (tg_appDir st)))"

text \<open>Lines 78-88: the event is recorded, then flushed.\<close>

definition record_and_flush :: "ext \<Rightarrow> telemetry \<Rightarrow> bool \<Rightarrow> bool \<Rightarrow> pstate \<Rightarrow> pstate" where
  "record_and_flush x t p a st =
     (case record_throws x of
        Some e \<Rightarrow> st
      | None \<Rightarrow>
          (let st1 = emit_effect
                 (TelemetryRecord t
                    \<lparr>cliCommand = ''dev'', turboFlag = isTurboSession st,
                     durationMilliseconds = date_now x - sessionStarted st,
                     ev_pagesDir = p, ev_appDir = a\<rparr> True) st
           in (case flushDetached_throws x of
                 Some e \<Rightarrow> st1
               | None \<Rightarrow> emit_effect (TelemetryFlushDetached ''dev'' (dir st)) st1)))"

text \<open>
  Lines 58-88, inside the \<^verbatim>\<open>try\<close>, once \<^verbatim>\<open>config\<close> is there. An exception
  leaves the block; what was done before it stays done.
\<close>

definition stop_telemetry :: "ext \<Rightarrow> NextConfigComplete \<Rightarrow> pstate \<Rightarrow> pstate" where
  "stop_telemetry x c st =
     (case telemetry_instance x c st of
        Inl e \<Rightarrow> st
      | Inr t \<Rightarrow>
          (case routing_conventions x st of
             Inl e \<Rightarrow> st
           | Inr (p, a) \<Rightarrow> record_and_flush x t p a st))"

text \<open>Lines 94-102, after the \<^verbatim>\<open>try\<close>: the trace upload, when a URL is configured.\<close>

definition upload_trace_step :: "ext \<Rightarrow> pstate \<Rightarrow> err + pstate" where
  "upload_trace_step x st =
     (case traceUploadUrl st of
        None \<Rightarrow> Inr st
      | Some u \<Rightarrow>
          if u = [] then Inr st
          else (case config st of
                  None \<Rightarrow> Inl ''TypeError''
                | Some c \<Rightarrow>
                    (case uploadTrace_throws x of
                       Some e \<Rightarrow> Inl e
                     | None \<Rightarrow>
                         Inr (emit_effect
                                (UploadTrace
                                   \<lparr>ut_traceUploadUrl = u, ut_mode = ''dev'',
                                    ut_isTurboSession = isTurboSession st,
                                    ut_projectDir = dir st, ut_distDir = distDir c\<rparr>) st))))"

text \<open>Lines 104-107: the cursor is shown again, and a newline follows.\<close>

definition restore_cursor :: "pstate \<Rightarrow> pstate" where
  "restore_cursor st = emit_effect (StdoutWrite newline) (emit_effect (StdoutWrite cursor_show) st)"

text \<open>
  Lines 94-108: the upload, the cursor, the exit. An exception here is outside the
  \<^verbatim>\<open>try\<close> and rejects the promise of the async function.
\<close>

definition stop_finish :: "(int \<Rightarrow> pstate \<Rightarrow> pstate) \<Rightarrow> ext \<Rightarrow> pstate \<Rightarrow> pstate" where
  "stop_finish exit x st =
     (case upload_trace_step x st of
        Inl e \<Rightarrow> reject e st
      | Inr st1 \<Rightarrow> exit 0 (restore_cursor st1))"

text \<open>
  \<^verbatim>\<open>handleSessionStop\<close> up to its first \<^verbatim>\<open>await\<close> (or to its end, when
  \<^verbatim>\<open>config\<close> is set and nothing is awaited), and its continuation once
  \<^verbatim>\<open>loadConfig\<close> has settled.
\<close>

definition handleSessionStop :: "(int \<Rightarrow> pstate \<Rightarrow> pstate) \<Rightarrow> ext \<Rightarrow> pstate \<Rightarrow> pstate" where
  "handleSessionStop exit x st =
     (if sessionStopHandled st then st
      else (let st1 = st\<lparr>sessionStopHandled := True\<rparr>
            in (case require_throws x of
                  Some e \<Rightarrow> stop_finish exit x st1
                | None \<Rightarrow>
                    (case config st1 of
                       Some c \<Rightarrow> stop_finish exit x (stop_telemetry x c st1)
                     | None \<Rightarrow> suspend StopAwaitLoadConfig (emit_effect LoadConfigCall st1)))))"

definition stop_config_loaded ::
    "(int \<Rightarrow> pstate \<Rightarrow> pstate) \<Rightarrow> ext \<Rightarrow> err option \<Rightarrow> pstate \<Rightarrow> pstate" where
  "stop_config_loaded exit x oc st =
     (case oc of
        Some e \<Rightarrow> stop_finish exit x st
      | None \<Rightarrow>
          (let c = diskConfig st; st1 = st\<lparr>config := Some c\<rparr>
           in stop_finish exit x (stop_telemetry x c st1)))"

section \<open>Calling listeners\<close>

definition call_listener ::
    "(int \<Rightarrow> pstate \<Rightarrow> pstate) \<Rightarrow> ext \<Rightarrow> listener \<Rightarrow> pstate \<Rightarrow> pstate" where
  "call_listener exit x l st =
     (case l of
        HandleSessionStop \<Rightarrow> handleSessionStop exit x st
      | Cleanup w \<Rightarrow> cleanup exit w st)"

text \<open>Emitting an event calls the listeners in the order of registration, while the process lives.\<close>

definition dispatch ::
    "(int \<Rightarrow> pstate \<Rightarrow> pstate) \<Rightarrow> ext \<Rightarrow> listener list \<Rightarrow> pstate \<Rightarrow> pstate" where
  "dispatch exit x ls st =
     fold (\<lambda>l s. if exited s = None then call_listener exit x l s else s) ls st"

definition process_exit :: "ext \<Rightarrow> int \<Rightarrow> pstate \<Rightarrow> pstate" where
  "process_exit x code st =
     (let st1 = dispatch reallyExit x (listeners_of EvExit st) st
      in if exited st1 = None then reallyExit code st1 else st1)"

text \<open>
  A rejected promise that nothing handles: Node.js emits \<^verbatim>\<open>'unhandledRejection'\<close>;
  with no listener for it the rejection is raised as an uncaught exception, and with
  no listener for that either the error is printed and the process exits with 1.
\<close>

definition handle_rejection :: "ext \<Rightarrow> err \<Rightarrow> pstate \<Rightarrow> pstate" where
  "handle_rejection x e st =
     (let st1 = emit_effect (UnhandledRejectionOf e) st
      in if listeners_of UnhandledRejection st1 \<noteq> []
         then dispatch (process_exit x) x (listeners_of UnhandledRejection st1) st1
         else if listeners_of UncaughtException st1 \<noteq> []
         then dispatch (process_exit x) x (listeners_of UncaughtException st1) st1
         else process_exit x 1 (emit_effect (ConsoleError e) st1))"

definition drain_rejections :: "ext \<Rightarrow> pstate \<Rightarrow> pstate" where
  "drain_rejections x st =
     fold (\<lambda>e s. if exited s = None then handle_rejection x e s else s)
       (rejections st) (st\<lparr>rejections := []\<rparr>)"


section \<open>Creating the router worker\<close>

text \<open>
  \<^verbatim>\<open>_workerPool._workers\<close> of a new worker: jest-worker decides how many entries
  there are and which of them have a \<^verbatim>\<open>_child\<close>; the children are new processes.
\<close>

fun pool_of :: "nat \<Rightarrow> bool list \<Rightarrow> nat option list" where
  "pool_of n [] = []"
| "pool_of n (True # bs) = Some n # pool_of (Suc n) bs"
| "pool_of n (False # bs) = None # pool_of n bs"

definition new_child :: child_process where
  "new_child = \<lparr>c_exitListeners = [], c_signals = [], c_exited = False\<rparr>"

text \<open>
  \<^verbatim>\<open>createRouterWorker\<close> from \<^verbatim>\<open>new Worker\<close> on (lines 131-205): the worker with
  its options, the exit listener on every child, the five listeners on the
  process. The result is the worker; its asynchronous cleanup is \<open>async_cleanup\<close>.
\<close>

definition createRouterWorker :: "NextConfigComplete \<Rightarrow> bool list \<Rightarrow> pstate \<Rightarrow> nat \<times> pstate" where
  "createRouterWorker fullConfig shape st =
     (let w = length (workers st);
          st1 = st\<lparr>workers :=
                      workers st @
                        [\<lparr>w_numWorkers = 1, w_maxRetries = 8,
                          w_prebundledReact =
                            (if experimental_serverActions fullConfig then ''experimental'' else ''next''),
                          w_pool = pool_of (length (children st)) shape,
                          w_status = Created\<rparr>],
                    children := children st @ replicate (length (filter id shape)) new_child\<rparr>;
          st2 = emit_effect (WorkerNew w) st1;
          st3 = fold (child_on_exit (Cleanup w)) (pool_children w st2) st2;
          st4 = process_on EvExit (Cleanup w) st3;
          st5 = process_on SIGINT (Cleanup w) st4;
          st6 = process_on SIGTERM (Cleanup w) st5;
          st7 = process_on UncaughtException (Cleanup w) st6;
          st8 = process_on UnhandledRejection (Cleanup w) st7
      in (w, st8))"

text \<open>The \<^verbatim>\<open>cleanup\<close> that \<^verbatim>\<open>createRouterWorker\<close> returns (lines 191-204), up to its \<^verbatim>\<open>await\<close>.\<close>

definition async_cleanup :: "nat \<Rightarrow> pstate \<Rightarrow> pstate" where
  "async_cleanup w st =
     (let st1 = fold (child_off_exit (Cleanup w)) (pool_children w st) st;
          st2 = process_off EvExit (Cleanup w) st1;
          st3 = process_off SIGINT (Cleanup w) st2;
          st4 = process_off SIGTERM (Cleanup w) st3;
          st5 = process_off UncaughtException (Cleanup w) st4;
          st6 = process_off UnhandledRejection (Cleanup w) st5
      in emit_effect (WorkerEndCall w) (worker_upd w (\<lambda>r. r\<lparr>w_status := Ending\<rparr>) st6))"

section \<open>The orchestrator\<close>

definition https_warning :: string where
  "https_warning = ''Self-signed certificates are currently an experimental feature, use at your own risk.''"

definition manual_restart_message :: string where
  "manual_restart_message =
     ''Detected change, manual restart required due to '__NEXT_DISABLE_MEMORY_WATCHER' usage''"

definition run_failed :: "ext \<Rightarrow> err \<Rightarrow> pstate \<Rightarrow> pstate" where
  "run_failed x e st = process_exit x 1 (emit_effect (ConsoleError e) st)"

text \<open>\<^verbatim>\<open>runDevServer(reboot)\<close> up to the \<^verbatim>\<open>await\<close> inside \<^verbatim>\<open>createRouterWorker(config)\<close>.\<close>

definition runDevServer :: "bool \<Rightarrow> pstate \<Rightarrow> pstate" where
  "runDevServer reboot st = suspend (RunAwaitCreate reboot (config st)) st"

definition start_server :: "bool \<Rightarrow> nat \<Rightarrow> StartServerOptions \<Rightarrow> pstate \<Rightarrow> pstate" where
  "start_server reboot w opts st =
     suspend (RunAwaitStart reboot w)
       (worker_upd w (\<lambda>r. r\<lparr>w_status := Starting\<rparr>) (emit_effect (StartServerCall w opts) st))"

text \<open>
  Lines 372-375: the two paths, when \<^verbatim>\<open>--experimental-https-key\<close> and
  \<^verbatim>\<open>--experimental-https-cert\<close> are both truthy.
\<close>

definition explicit_paths :: "cli_args \<Rightarrow> (string \<times> string) option" where
  "explicit_paths a =
     (case (arg_https_key a, arg_https_cert a) of
        (Some k, Some c) \<Rightarrow> if k \<noteq> [] \<and> c \<noteq> [] then Some (k, c) else None
      | _ \<Rightarrow> None)"

text \<open>Lines 365-390: the certificate and the call of \<^verbatim>\<open>startServer\<close>.\<close>

definition run_after_create :: "ext \<Rightarrow> bool \<Rightarrow> nat \<Rightarrow> pstate \<Rightarrow> pstate" where
  "run_after_create x reboot w st =
     (if arg_https (nd_args st) = Some True then
        (let st1 = emit_effect (LogWarn https_warning) st
         in (case explicit_paths (nd_args st) of
               Some (k, c) \<Rightarrow>
                 start_server reboot w
                   ((devServerOptions st)\<lparr>so_selfSignedCertificate :=
                       Some \<lparr>key = path_resolve x k, cert = path_resolve x c\<rparr>\<rparr>) st1
             | None \<Rightarrow>
                 suspend (RunAwaitCert reboot w)
                   (emit_effect (CreateSelfSignedCertificate (nd_host st)) st1)))
      else start_server reboot w (devServerOptions st) st)"

definition worker_created ::
    "ext \<Rightarrow> bool \<Rightarrow> NextConfigComplete option \<Rightarrow> err + bool list \<Rightarrow> pstate \<Rightarrow> pstate" where
  "worker_created x reboot cfg oc st =
     (case oc of
        Inl e \<Rightarrow> run_failed x e st
      | Inr shape \<Rightarrow>
          (case cfg of
             None \<Rightarrow> run_failed x ''TypeError'' st
           | Some fullConfig \<Rightarrow>
               (case createRouterWorker fullConfig shape st of
                  (w, st1) \<Rightarrow> run_after_create x reboot w st1)))"

definition cert_created ::
    "ext \<Rightarrow> bool \<Rightarrow> nat \<Rightarrow> err + certificate option \<Rightarrow> pstate \<Rightarrow> pstate" where
  "cert_created x reboot w oc st =
     (case oc of
        Inl e \<Rightarrow> run_failed x e st
      | Inr certificate \<Rightarrow>
          start_server reboot w
            ((devServerOptions st)\<lparr>so_selfSignedCertificate := certificate\<rparr>) st)"

definition server_started :: "ext \<Rightarrow> bool \<Rightarrow> nat \<Rightarrow> err option \<Rightarrow> pstate \<Rightarrow> pstate" where
  "server_started x reboot w oc st =
     (case oc of
        Some e \<Rightarrow> run_failed x e st
      | None \<Rightarrow>
          suspend (RunAwaitPreflight reboot w)
            (emit_effect (PreflightCall reboot)
               (worker_upd w (\<lambda>r. r\<lparr>w_status := Serving\<rparr>) st)))"

text \<open>
  When \<^verbatim>\<open>preflight\<close> has settled \<^verbatim>\<open>runDevServer\<close> returns the cleanup of its
  worker, and both callers store it in \<^verbatim>\<open>runningServer\<close> (lines 423 and 431).
\<close>

definition preflight_done :: "ext \<Rightarrow> bool \<Rightarrow> nat \<Rightarrow> err option \<Rightarrow> pstate \<Rightarrow> pstate" where
  "preflight_done x reboot w oc st =
     (case oc of
        Some e \<Rightarrow> run_failed x e st
      | None \<Rightarrow> st\<lparr>runningServer := Some w\<rparr>)"

text \<open>
  Lines 419-423 up to the first \<^verbatim>\<open>await\<close>: the cleanup of the running server when
  there is one, else \<^verbatim>\<open>runDevServer(true)\<close> at once.
\<close>

definition restart :: "pstate \<Rightarrow> pstate" where
  "restart st =
     (case runningServer st of
        Some w \<Rightarrow> suspend (RestartAwaitCleanup w) (async_cleanup w st)
      | None \<Rightarrow> runDevServer True st)"

definition restart_message :: "ext \<Rightarrow> string \<Rightarrow> string" where
  "restart_message x filename =
     ''Found a change in '' @ path_basename x filename @
     ''. Restarting the server to apply the changes...''"

text \<open>The callback of \<^verbatim>\<open>watchConfigFiles\<close> (lines 404-428), and its continuation.\<close>

definition on_config_change :: "ext \<Rightarrow> string \<Rightarrow> pstate \<Rightarrow> pstate" where
  "on_config_change x filename st =
     (if truthy (penv st ''__NEXT_DISABLE_MEMORY_WATCHER'') then
        emit_effect (LogInfo manual_restart_message) st
      else restart (emit_effect (LogWarn (restart_message x filename)) (emit_effect (LogWarn []) st)))"

definition worker_ended :: "ext \<Rightarrow> nat \<Rightarrow> err option \<Rightarrow> pstate \<Rightarrow> pstate" where
  "worker_ended x w oc st =
     (case oc of
        Some e \<Rightarrow> run_failed x e st
      | None \<Rightarrow> runDevServer True (worker_upd w (\<lambda>r. r\<lparr>w_status := Ended\<rparr>) st))"

section \<open>\<^verbatim>\<open>nextDev\<close>\<close>

text \<open>Lines 232-256: the help text, the project directory, the check that it exists.\<close>

definition nextDev :: "ext \<Rightarrow> cli_args \<Rightarrow> pstate \<Rightarrow> pstate" where
  "nextDev x a st =
     (if arg_help a = Some True then process_exit x 0 (emit_effect (ConsoleLog (helpText x)) st)
      else suspend DevAwaitFileExists
             (st\<lparr>nd_args := a,
                 dir := Some (getProjectDir x
                          (if truthy (penv st ''NEXT_PRIVATE_DEV_DIR'')
                           then penv st ''NEXT_PRIVATE_DEV_DIR''
                           else (case arg_positional a of [] \<Rightarrow> None | p # _ \<Rightarrow> Some p)))\<rparr>))"

text \<open>Lines 256-310: \<^verbatim>\<open>printAndExit\<close> prints the message and exits with 1.\<close>

definition dev_dir_checked :: "ext \<Rightarrow> bool \<Rightarrow> pstate \<Rightarrow> pstate" where
  "dev_dir_checked x found st =
     (if \<not> found then
        process_exit x 1
          (emit_effect
             (ConsoleError (''> No such directory exists as the project root: '' @
                            (case dir st of None \<Rightarrow> ''undefined'' | Some d \<Rightarrow> d))) st)
      else suspend DevAwaitLoadConfig
             (emit_effect LoadConfigCall
                (st\<lparr>nd_port := getPort x (nd_args st) (penv st),
                    nd_allowRetry := (arg_port (nd_args st) = None \<and> penv st ''PORT'' = None),
                    nd_host := arg_hostname (nd_args st)\<rparr>)))"

text \<open>Lines 357-432: the watcher is registered, then the first start.\<close>

definition dev_start :: "pstate \<Rightarrow> pstate" where
  "dev_start st = runDevServer False (st\<lparr>watching := True\<rparr>)"

text \<open>
  Lines 310-355. A rejection of \<^verbatim>\<open>loadConfig\<close> or of \<^verbatim>\<open>validateTurboNextConfig\<close>
  rejects the promise of \<^verbatim>\<open>nextDev\<close>, which goes to its caller.
\<close>

definition dev_config_loaded :: "ext \<Rightarrow> err option \<Rightarrow> pstate \<Rightarrow> pstate" where
  "dev_config_loaded x oc st =
     (case oc of
        Some e \<Rightarrow> emit_effect (NextDevRejected e) st
      | None \<Rightarrow>
          (let st1 = st\<lparr>config := Some (diskConfig st),
                        nd_expFeatureInfo := sort_key length (diskFeatures st)\<rparr>;
               st2 = (if truthy (arg_upload_trace (nd_args st1))
                      then st1\<lparr>traceUploadUrl := arg_upload_trace (nd_args st1)\<rparr> else st1);
               st3 = st2\<lparr>devServerOptions :=
                           \<lparr>so_dir = (case dir st2 of None \<Rightarrow> [] | Some d \<Rightarrow> d),
                            so_port = nd_port st2,
                            so_allowRetry = nd_allowRetry st2,
                            so_isDev = True,
                            so_hostname = nd_host st2,
                            so_isExperimentalTestProxy = arg_test_proxy (nd_args st2),
                            so_envInfo = loadedEnvFiles x,
                            so_expFeatureInfo = nd_expFeatureInfo st2,
                            so_selfSignedCertificate = None\<rparr>\<rparr>
           in if arg_turbo (nd_args st3) = Some True
              then suspend DevAwaitTurbo (st3\<lparr>penv := (penv st3)(''TURBOPACK'' \<mapsto> ''1'')\<rparr>)
              else dev_start st3))"

definition turbo_validated :: "ext \<Rightarrow> err option \<Rightarrow> pstate \<Rightarrow> pstate" where
  "turbo_validated x oc st =
     (case oc of
        Some e \<Rightarrow> emit_effect (NextDevRejected e) st
      | None \<Rightarrow> dev_start st)"

section \<open>The event loop\<close>

datatype psignal = Sigint | Sigterm

fun signal_event :: "psignal \<Rightarrow> pevent" where
  "signal_event Sigint = SIGINT"
| "signal_event Sigterm = SIGTERM"

fun signal_status :: "psignal \<Rightarrow> int" where
  "signal_status Sigint = 130"
| "signal_status Sigterm = 143"

text \<open>
  What the event loop can run next: a signal, a change of a watched
  configuration file (after which \<^verbatim>\<open>loadConfig\<close> would resolve the given
  configuration), the exit of a child process, or the settling of a promise that
  an async function of the file awaits.
\<close>

datatype event =
    Signal psignal
  | ConfigChange string NextConfigComplete "string list"
  | ChildExit nat
  | DirChecked bool
  | DevConfigLoaded "err option"
  | TurboValidated "err option"
  | StopConfigLoaded "err option"
  | WorkerCreated bool "NextConfigComplete option" "err + bool list"
  | CertCreated bool nat "err + certificate option"
  | ServerStarted bool nat "err option"
  | PreflightDone bool nat "err option"
  | WorkerEnded nat "err option"

definition resume :: "task \<Rightarrow> (pstate \<Rightarrow> pstate) \<Rightarrow> pstate \<Rightarrow> pstate" where
  "resume t k st = (if t \<in> set (tasks st) then k (st\<lparr>tasks := remove1 t (tasks st)\<rparr>) else st)"

text \<open>A signal without a listener ends the process; with listeners, they are called.\<close>

fun react :: "ext \<Rightarrow> event \<Rightarrow> pstate \<Rightarrow> pstate" where
  "react x (Signal sg) st =
     (if listeners_of (signal_event sg) st = [] then reallyExit (signal_status sg) st
      else dispatch (process_exit x) x (listeners_of (signal_event sg) st) st)"
| "react x (ConfigChange filename c fs) st =
     (let st1 = st\<lparr>diskConfig := c, diskFeatures := fs\<rparr>
      in if watching st1 then on_config_change x filename st1 else st1)"
| "react x (ChildExit c) st =
     (if c < length (children st) \<and> \<not> c_exited (children st ! c)
      then dispatch (process_exit x) x (c_exitListeners (children st ! c))
             (child_upd c (\<lambda>ch. ch\<lparr>c_exited := True\<rparr>) st)
      else st)"
| "react x (DirChecked found) st = resume DevAwaitFileExists (dev_dir_checked x found) st"
| "react x (DevConfigLoaded oc) st = resume DevAwaitLoadConfig (dev_config_loaded x oc) st"
| "react x (TurboValidated oc) st = resume DevAwaitTurbo (turbo_validated x oc) st"
| "react x (StopConfigLoaded oc) st =
     resume StopAwaitLoadConfig (stop_config_loaded (process_exit x) x oc) st"
| "react x (WorkerCreated reboot cfg oc) st =
     resume (RunAwaitCreate reboot cfg) (worker_created x reboot cfg oc) st"
| "react x (CertCreated reboot w oc) st =
     resume (RunAwaitCert reboot w) (cert_created x reboot w oc) st"
| "react x (ServerStarted reboot w oc) st =
     resume (RunAwaitStart reboot w) (server_started x reboot w oc) st"
| "react x (PreflightDone reboot w oc) st =
     resume (RunAwaitPreflight reboot w) (preflight_done x reboot w oc) st"
| "react x (WorkerEnded w oc) st =
     resume (RestartAwaitCleanup w) (worker_ended x w oc) st"

text \<open>One turn of the event loop; nothing runs once the process has exited.\<close>

definition step :: "ext \<Rightarrow> event \<Rightarrow> pstate \<Rightarrow> pstate" where
  "step x ev st = (if exited st = None then drain_rejections x (react x ev st) else st)"

definition run :: "ext \<Rightarrow> event list \<Rightarrow> pstate \<Rightarrow> pstate" where
  "run x evs st = fold (step x) evs st"

text \<open>
  The state once the module is loaded (lines 33-38 and 111-112): the two signal
  listeners are registered and nothing else has happened.
\<close>

definition no_args :: cli_args where
  "no_args =
     \<lparr>arg_help = None, arg_port = None, arg_hostname = None, arg_turbo = None,
      arg_https = None, arg_https_key = None, arg_https_cert = None,
      arg_test_proxy = None, arg_upload_trace = None, arg_positional = []\<rparr>"

definition module_loaded ::
    "int \<Rightarrow> (string \<Rightarrow> string option) \<Rightarrow> NextConfigComplete \<Rightarrow> string list \<Rightarrow> pstate" where
  "module_loaded now env disk feats =
     \<lparr>dir = None, config = None, isTurboSession = False, traceUploadUrl = None,
      sessionStopHandled = False, sessionStarted = now,
      nd_args = no_args, nd_port = 0, nd_allowRetry = False, nd_host = None,
      nd_expFeatureInfo = [],
      devServerOptions =
        \<lparr>so_dir = [], so_port = 0, so_allowRetry = False, so_isDev = True,
         so_hostname = None, so_isExperimentalTestProxy = None, so_envInfo = [],
         so_expFeatureInfo = [], so_selfSignedCertificate = None\<rparr>,
      watching = False, runningServer = None,
      penv = env, tg_telemetry = False, tg_pagesDir = None, tg_appDir = None,
      plisteners = [(SIGINT, HandleSessionStop), (SIGTERM, HandleSessionStop)],
      workers = [], children = [], tasks = [], rejections = [], effects = [],
      exited = None, diskConfig = disk, diskFeatures = feats\<rparr>"

text \<open>A session: the module is loaded, \<^verbatim>\<open>nextDev\<close> is called, events follow.\<close>

definition session ::
    "ext \<Rightarrow> cli_args \<Rightarrow> int \<Rightarrow> (string \<Rightarrow> string option) \<Rightarrow> NextConfigComplete \<Rightarrow> string list
       \<Rightarrow> event list \<Rightarrow> pstate" where
  "session x a now env disk feats evs = run x evs (nextDev x a (module_loaded now env disk feats))"

fun listener_effect :: "effect \<Rightarrow> bool" where
  "listener_effect LoadConfigCall = True"
| "listener_effect (TelemetryRecord t e f) = True"
| "listener_effect (TelemetryFlushDetached c d) = True"
| "listener_effect (UploadTrace u) = True"
| "listener_effect (StdoutWrite s) = True"
| "listener_effect (ChildKill c s) = True"
| "listener_effect (UnhandledRejectionOf e) = True"
| "listener_effect (ConsoleError e) = True"
| "listener_effect _ = False"

definition core :: "pstate \<Rightarrow> pstate" where
  "core st = st\<lparr>sessionStopHandled := False, children := [], tasks := [], rejections := [],
                effects := [], exited := None\<rparr>"

definition kept :: "pstate \<Rightarrow> pstate \<Rightarrow> bool" where
  "kept st st' \<longleftrightarrow>
     core st' = core st \<and>
     map c_exitListeners (children st') = map c_exitListeners (children st) \<and>
     map c_exited (children st') = map c_exited (children st) \<and>
     filter (\<lambda>t. t \<noteq> StopAwaitLoadConfig) (tasks st') = filter (\<lambda>t. t \<noteq> StopAwaitLoadConfig) (tasks st) \<and>
     filter (\<lambda>e. \<not> listener_effect e) (effects st') = filter (\<lambda>e. \<not> listener_effect e) (effects st)"

definition new_worker :: "NextConfigComplete \<Rightarrow> nat \<Rightarrow> bool list \<Rightarrow> router_worker" where
  "new_worker fullConfig n shape =
     \<lparr>w_numWorkers = 1, w_maxRetries = 8,
      w_prebundledReact = (if experimental_serverActions fullConfig then ''experimental'' else ''next''),
      w_pool = pool_of n shape, w_status = Created\<rparr>"

definition worker_listeners :: "nat \<Rightarrow> (pevent \<times> listener) list" where
  "worker_listeners w =
     [(EvExit, Cleanup w), (SIGINT, Cleanup w), (SIGTERM, Cleanup w),
      (UncaughtException, Cleanup w), (UnhandledRejection, Cleanup w)]"

fun is_telemetry_record :: "effect \<Rightarrow> bool" where
  "is_telemetry_record (TelemetryRecord t e f) = True"
| "is_telemetry_record _ = False"

fun is_telemetry_flush :: "effect \<Rightarrow> bool" where
  "is_telemetry_flush (TelemetryFlushDetached c d) = True"
| "is_telemetry_flush _ = False"

fun is_trace_upload :: "effect \<Rightarrow> bool" where
  "is_trace_upload (UploadTrace u) = True"
| "is_trace_upload _ = False"

fun is_stdout_write :: "effect \<Rightarrow> bool" where
  "is_stdout_write (StdoutWrite s) = True"
| "is_stdout_write _ = False"

definition stop_view :: "pstate \<Rightarrow> bool \<times> effect list \<times> effect list \<times> effect list \<times> effect list \<times> nat" where
  "stop_view st =
     (sessionStopHandled st, filter is_telemetry_record (effects st),
      filter is_telemetry_flush (effects st), filter is_trace_upload (effects st),
      filter is_stdout_write (effects st),
      length (filter (\<lambda>t. t = StopAwaitLoadConfig) (tasks st)))"

definition stop_pending :: "pstate \<Rightarrow> nat" where
  "stop_pending st = length (filter (\<lambda>t. t = StopAwaitLoadConfig) (tasks st))"

definition quiet :: "pstate \<Rightarrow> bool" where
  "quiet st \<longleftrightarrow>
     filter is_telemetry_record (effects st) = [] \<and> filter is_telemetry_flush (effects st) = [] \<and>
     filter is_trace_upload (effects st) = [] \<and> filter is_stdout_write (effects st) = []"

definition once :: "pstate \<Rightarrow> bool" where
  "once st \<longleftrightarrow>
     length (filter is_telemetry_record (effects st)) \<le> 1 \<and>
     length (filter is_telemetry_flush (effects st)) \<le> 1 \<and>
     length (filter is_trace_upload (effects st)) \<le> 1 \<and>
     (filter is_stdout_write (effects st) = [] \<or>
      filter is_stdout_write (effects st) = [StdoutWrite cursor_show, StdoutWrite newline])"

definition Inv_stop :: "pstate \<Rightarrow> bool" where
  "Inv_stop st \<longleftrightarrow>
     once st \<and>
     (sessionStopHandled st \<or> (quiet st \<and> stop_pending st = 0)) \<and>
     (stop_pending st = 0 \<or> (stop_pending st = 1 \<and> quiet st))"

definition calm :: "pstate \<Rightarrow> pstate \<Rightarrow> bool" where
  "calm st st' \<longleftrightarrow> stop_view st' = stop_view st"

definition good :: "(pstate \<Rightarrow> pstate) \<Rightarrow> bool" where
  "good f \<longleftrightarrow>
     (\<forall>s. Inv_stop s \<longrightarrow> Inv_stop (f s)) \<and> (\<forall>s. sessionStopHandled s \<longrightarrow> calm s (f s))"

text \<open>One run of the body, from a state where the flag is set and nothing was written.\<close>

definition fresh :: "pstate \<Rightarrow> bool" where
  "fresh st \<longleftrightarrow> sessionStopHandled st \<and> quiet st \<and> stop_pending st = 0"

definition half :: "pstate \<Rightarrow> bool" where
  "half st \<longleftrightarrow>
     sessionStopHandled st \<and> stop_pending st = 0 \<and>
     length (filter is_telemetry_record (effects st)) \<le> 1 \<and>
     length (filter is_telemetry_flush (effects st)) \<le> 1 \<and>
     filter is_trace_upload (effects st) = [] \<and> filter is_stdout_write (effects st) = []"

definition full :: "pstate \<Rightarrow> bool" where
  "full st \<longleftrightarrow> sessionStopHandled st \<and> stop_pending st = 0 \<and> once st"

section \<open>A concrete session\<close>

text \<open>Collaborators that never throw, for the examples.\<close>

definition some_ext :: ext where
  "some_ext =
     \<lparr>path_join = (\<lambda>a b. a @ ''/'' @ b), path_resolve = (\<lambda>p. ''/cwd/'' @ p),
      path_basename = (\<lambda>p. p), getPort = (\<lambda>a e. 3000), getProjectDir = (\<lambda>d. ''/app''),
      loadedEnvFiles = [], helpText = ''help'', require_throws = None,
      newTelemetry_throws = None, findPagesDir = (\<lambda>d. Inr (Some ''/app/pages'', None)),
      record_throws = None, flushDetached_throws = None, uploadTrace_throws = None,
      date_now = 100\<rparr>"

definition some_config :: NextConfigComplete where
  "some_config = \<lparr>distDir = ''.next'', experimental_serverActions = False\<rparr>"

definition stopped_state :: pstate where
  "stopped_state = (module_loaded 0 Map.empty some_config [])\<lparr>sessionStopHandled := True\<rparr>"

definition manual_restart_state :: pstate where
  "manual_restart_state =
     (module_loaded 0 [''__NEXT_DISABLE_MEMORY_WATCHER'' \<mapsto> ''1''] some_config [])
       \<lparr>watching := True, runningServer := Some 0\<rparr>"

section \<open>Exit status\<close>

definition zero_or_alive :: "pstate \<Rightarrow> bool" where
  "zero_or_alive st \<longleftrightarrow> exited st = None \<or> exited st = Some 0"

definition exits_zero :: "(int \<Rightarrow> pstate \<Rightarrow> pstate) \<Rightarrow> bool" where
  "exits_zero exit \<longleftrightarrow> (\<forall>s. exited s = None \<longrightarrow> exited (exit 0 s) = Some 0)"

text \<open>The bytes written to standard output.\<close>

fun stdout_bytes :: "effect \<Rightarrow> string" where
  "stdout_bytes (StdoutWrite s) = s"
| "stdout_bytes _ = []"

definition stdout_of :: "pstate \<Rightarrow> string" where
  "stdout_of st = concat (map stdout_bytes (effects st))"

section \<open>Sessions of the examples\<close>

definition started_events :: "event list" where
  "started_events =
     [DirChecked True, DevConfigLoaded None,
      WorkerCreated False (Some some_config) (Inr [True]),
      ServerStarted False 0 None, PreflightDone False 0 None]"

definition some_session :: "event list \<Rightarrow> pstate" where
  "some_session evs = session some_ext no_args 0 Map.empty some_config [] evs"

definition finished :: "pstate \<Rightarrow> pstate \<Rightarrow> bool" where
  "finished st st' \<longleftrightarrow> stdout_of st' = stdout_of st @ cursor_show @ newline \<and> exited st' = Some 0"

definition upload_fails :: ext where
  "upload_fails = some_ext\<lparr>uploadTrace_throws := Some ''spawn EAGAIN''\<rparr>"

definition telemetry_fails :: ext where
  "telemetry_fails = some_ext\<lparr>newTelemetry_throws := Some ''EACCES'', record_throws := Some ''EPIPE''\<rparr>"

definition trace_args :: cli_args where
  "trace_args = no_args\<lparr>arg_upload_trace := Some ''http://localhost:8000/trace''\<rparr>"

definition loaded_state :: pstate where
  "loaded_state = (module_loaded 0 Map.empty some_config [])\<lparr>config := Some some_config, dir := Some ''/app''\<rparr>"

definition suspended_state :: pstate where
  "suspended_state =
     (module_loaded 0 Map.empty some_config [])
       \<lparr>sessionStopHandled := True, tasks := [DevAwaitFileExists, StopAwaitLoadConfig]\<rparr>"

section \<open>The payload of every start\<close>

fun is_run_task :: "task \<Rightarrow> bool" where
  "is_run_task (RunAwaitCreate r c) = True"
| "is_run_task (RunAwaitCert r w) = True"
| "is_run_task (RunAwaitStart r w) = True"
| "is_run_task (RunAwaitPreflight r w) = True"
| "is_run_task (RestartAwaitCleanup w) = True"
| "is_run_task _ = False"

fun is_cert_task :: "task \<Rightarrow> bool" where
  "is_cert_task (RunAwaitCert r w) = True"
| "is_cert_task _ = False"

fun is_start_call :: "effect \<Rightarrow> bool" where
  "is_start_call (StartServerCall w opts) = True"
| "is_start_call _ = False"

definition ptasks :: "pstate \<Rightarrow> task list" where
  "ptasks st = filter (\<lambda>t. t \<noteq> StopAwaitLoadConfig) (tasks st)"

definition plog :: "pstate \<Rightarrow> effect list" where
  "plog st = filter (\<lambda>e. \<not> listener_effect e) (effects st)"

definition retry_allowed :: "cli_args \<Rightarrow> string option \<Rightarrow> bool" where
  "retry_allowed a p \<longleftrightarrow> arg_port a = None \<and> p = None"

definition self_signed :: "cli_args \<Rightarrow> bool" where
  "self_signed a \<longleftrightarrow> arg_https a = Some True \<and> explicit_paths a = None"

definition explicit_certificate :: "ext \<Rightarrow> cli_args \<Rightarrow> certificate option" where
  "explicit_certificate x a =
     map_option (\<lambda>(k, c). \<lparr>key = path_resolve x k, cert = path_resolve x c\<rparr>) (explicit_paths a)"

text \<open>The certificates that \<^verbatim>\<open>createSelfSignedCertificate\<close> has delivered, by worker.\<close>

fun delivered :: "event \<Rightarrow> (nat \<times> certificate option) set" where
  "delivered (CertCreated r w (Inr c)) = {(w, c)}"
| "delivered _ = {}"

fun payload_ok ::
    "ext \<Rightarrow> cli_args \<Rightarrow> string option \<Rightarrow> (nat \<times> certificate option) set \<Rightarrow> effect \<Rightarrow> bool" where
  "payload_ok x a p C (StartServerCall w opts) =
     (so_allowRetry opts = retry_allowed a p \<and>
      (if arg_https a = Some True
       then (if explicit_paths a \<noteq> None
             then so_selfSignedCertificate opts = explicit_certificate x a
             else (w, so_selfSignedCertificate opts) \<in> C)
       else so_selfSignedCertificate opts = None))"
| "payload_ok x a p C (CreateSelfSignedCertificate h) = (h = arg_hostname a \<and> self_signed a)"
| "payload_ok x a p C _ = True"

definition checked :: "pstate \<Rightarrow> bool" where
  "checked st \<longleftrightarrow>
     watching st \<or> DevAwaitTurbo \<in> set (ptasks st) \<or> DevAwaitLoadConfig \<in> set (ptasks st)"

definition set_up :: "pstate \<Rightarrow> bool" where
  "set_up st \<longleftrightarrow> watching st \<or> DevAwaitTurbo \<in> set (ptasks st)"

definition K :: "ext \<Rightarrow> cli_args \<Rightarrow> string option \<Rightarrow> (nat \<times> certificate option) set \<Rightarrow> pstate \<Rightarrow> bool" where
  "K x a p C st \<longleftrightarrow>
     penv st ''PORT'' = p \<and>
     (DevAwaitFileExists \<in> set (ptasks st) \<or> checked st \<longrightarrow> nd_args st = a) \<and>
     (checked st \<longrightarrow> nd_allowRetry st = retry_allowed a p \<and> nd_host st = arg_hostname a) \<and>
     (set_up st \<longrightarrow>
        so_allowRetry (devServerOptions st) = retry_allowed a p \<and>
        so_selfSignedCertificate (devServerOptions st) = None) \<and>
     (\<forall>t \<in> set (ptasks st). is_run_task t \<longrightarrow> watching st) \<and>
     (\<forall>t \<in> set (ptasks st). is_cert_task t \<longrightarrow>
        self_signed a \<and> CreateSelfSignedCertificate (arg_hostname a) \<in> set (plog st)) \<and>
     (\<forall>e \<in> set (plog st). payload_ok x a p C e) \<and>
     (\<forall>e \<in> set (plog st). is_start_call e \<longrightarrow> self_signed a \<longrightarrow>
        CreateSelfSignedCertificate (arg_hostname a) \<in> set (plog st))"

section \<open>Sessions with TLS\<close>

definition https_args :: cli_args where
  "https_args = no_args\<lparr>arg_https := Some True, arg_hostname := Some ''dev.local''\<rparr>"

definition https_paths_args :: cli_args where
  "https_paths_args =
     no_args\<lparr>arg_https := Some True, arg_https_key := Some ''key.pem'',
             arg_https_cert := Some ''cert.pem''\<rparr>"

definition generated_certificate :: certificate where
  "generated_certificate = \<lparr>key = ''/certs/localhost-key.pem'', cert = ''/certs/localhost.pem''\<rparr>"

definition plain_options :: StartServerOptions where
  "plain_options =
     \<lparr>so_dir = ''/app'', so_port = 3000, so_allowRetry = True, so_isDev = True,
      so_hostname = None, so_isExperimentalTestProxy = None, so_envInfo = [],
      so_expFeatureInfo = [], so_selfSignedCertificate = None\<rparr>"

definition created_events :: "event list" where
  "created_events =
     [DirChecked True, DevConfigLoaded None, WorkerCreated False (Some some_config) (Inr [True])]"

section \<open>Listeners are registered once\<close>

definition clisteners :: "pstate \<Rightarrow> listener list list" where
  "clisteners st = map c_exitListeners (children st)"

definition pools :: "pstate \<Rightarrow> nat option list list" where
  "pools st = map w_pool (workers st)"

definition pool_list :: "nat option list list \<Rightarrow> nat \<Rightarrow> nat list" where
  "pool_list ps w = (if w < length ps then List.map_filter id (ps ! w) else [])"

definition L :: "pstate \<Rightarrow> bool" where
  "L st \<longleftrightarrow>
     (\<forall>ev w. count_list (plisteners st) (ev, Cleanup w) \<le> (if w < length (pools st) then 1 else 0)) \<and>
     (\<forall>c w. c < length (clisteners st) \<longrightarrow>
        count_list (clisteners st ! c) (Cleanup w) \<le> count_list (pool_list (pools st) w) c)"

definition same_listeners :: "pstate \<Rightarrow> pstate \<Rightarrow> bool" where
  "same_listeners st st' \<longleftrightarrow>
     plisteners st' = plisteners st \<and> clisteners st' = clisteners st \<and> pools st' = pools st"

section \<open>The cleanup of a worker\<close>

text \<open>No listener of worker \<open>w\<close> is attached: not to the process, not to a child.\<close>

definition detached :: "nat \<Rightarrow> pstate \<Rightarrow> bool" where
  "detached w st \<longleftrightarrow>
     Cleanup w \<notin> set (map snd (plisteners st)) \<and> Cleanup w \<notin> set (concat (clisteners st))"

definition other_listeners :: "nat \<Rightarrow> pstate \<Rightarrow> (pevent \<times> listener) list \<times> listener list list" where
  "other_listeners w st =
     (filter (\<lambda>p. snd p \<noteq> Cleanup w) (plisteners st),
      map (filter (\<lambda>l. l \<noteq> Cleanup w)) (clisteners st))"

text \<open>A worker that exists and has no listener attached gets none.\<close>

definition stays_detached :: "nat \<Rightarrow> pstate \<Rightarrow> bool" where
  "stays_detached w st \<longleftrightarrow> w < length (pools st) \<and> detached w st"

section \<open>One configuration for every start\<close>

text \<open>The value of \<^verbatim>\<open>__NEXT_PRIVATE_PREBUNDLED_REACT\<close> that a configuration gives (lines 148-150).\<close>

definition prebundled :: "NextConfigComplete \<Rightarrow> string" where
  "prebundled c = (if experimental_serverActions c then ''experimental'' else ''next'')"

definition reacts :: "pstate \<Rightarrow> string list" where
  "reacts st = map w_prebundledReact (workers st)"

text \<open>The options of a \<^verbatim>\<open>startServer\<close> call, the certificate apart.\<close>

definition base_options :: "StartServerOptions \<Rightarrow> StartServerOptions" where
  "base_options opts = opts\<lparr>so_selfSignedCertificate := None\<rparr>"

fun start_ok :: "StartServerOptions \<Rightarrow> effect \<Rightarrow> bool" where
  "start_ok d (StartServerCall w opts) = (base_options opts = d)"
| "start_ok d _ = True"

fun create_ok :: "NextConfigComplete \<Rightarrow> task \<Rightarrow> bool" where
  "create_ok c (RunAwaitCreate r cfg) = (cfg = Some c)"
| "create_ok c _ = True"

text \<open>Before the configuration is loaded: nothing has been started.\<close>

definition before_load :: "pstate \<Rightarrow> bool" where
  "before_load st \<longleftrightarrow>
     \<not> watching st \<and> DevAwaitTurbo \<notin> set (ptasks st) \<and> workers st = [] \<and>
     (\<forall>e \<in> set (plog st). \<not> is_start_call e) \<and>
     (\<forall>t \<in> set (ptasks st). \<not> is_run_task t)"

definition dev_pending :: "pstate \<Rightarrow> nat" where
  "dev_pending st =
     count_list (ptasks st) DevAwaitFileExists + count_list (ptasks st) DevAwaitLoadConfig"

definition pre :: "pstate \<Rightarrow> bool" where
  "pre st \<longleftrightarrow> before_load st \<and> dev_pending st \<le> 1"

text \<open>
  Once it is loaded: every worker and every call so far comes from \<open>c\<close> and \<open>d\<close>, and
  as long as the process lives \<^verbatim>\<open>config\<close> is \<open>c\<close>, \<^verbatim>\<open>devServerOptions\<close> is \<open>d\<close>,
  and no \<^verbatim>\<open>loadConfig\<close> of \<^verbatim>\<open>nextDev\<close> is pending.
\<close>

definition made_from :: "NextConfigComplete \<Rightarrow> StartServerOptions \<Rightarrow> pstate \<Rightarrow> bool" where
  "made_from c d st \<longleftrightarrow>
     (\<forall>r \<in> set (reacts st). r = prebundled c) \<and> (\<forall>e \<in> set (plog st). start_ok d e)"

definition live_with :: "NextConfigComplete \<Rightarrow> StartServerOptions \<Rightarrow> pstate \<Rightarrow> bool" where
  "live_with c d st \<longleftrightarrow>
     config st = Some c \<and> base_options (devServerOptions st) = d \<and>
     (\<forall>t \<in> set (ptasks st). create_ok c t) \<and>
     DevAwaitLoadConfig \<notin> set (ptasks st) \<and> DevAwaitFileExists \<notin> set (ptasks st)"

definition post :: "NextConfigComplete \<Rightarrow> StartServerOptions \<Rightarrow> pstate \<Rightarrow> bool" where
  "post c d st \<longleftrightarrow> made_from c d st \<and> (exited st = None \<longrightarrow> live_with c d st)"

text \<open>The stop handler listens to the two signals only.\<close>

definition signal_only :: "pstate \<Rightarrow> bool" where
  "signal_only st \<longleftrightarrow>
     (\<forall>p \<in> set (plisteners st). snd p = HandleSessionStop \<longrightarrow> fst p = SIGINT \<or> fst p = SIGTERM)"

section \<open>The configuration of a restart\<close>

definition actions_config :: NextConfigComplete where
  "actions_config = \<lparr>distDir = ''.next'', experimental_serverActions = True\<rparr>"

text \<open>
  A session that starts, sees \<^verbatim>\<open>next.config.js\<close> change to a configuration with
  \<^verbatim>\<open>experimental.serverActions\<close>, and restarts.
\<close>

definition config_changed_events :: "event list" where
  "config_changed_events =
     started_events @
     [ConfigChange ''next.config.js'' actions_config [''serverActions''], WorkerEnded 0 None]"

definition restarted_events :: "event list" where
  "restarted_events =
     config_changed_events @
     [WorkerCreated True (Some some_config) (Inr [True]),
      ServerStarted True 1 None, PreflightDone True 1 None]"

section \<open>A change of the configuration during a start\<close>

text \<open>
  The first start has come as far as \<^verbatim>\<open>await preflight(reboot)\<close>, so that
  \<^verbatim>\<open>runningServer\<close> is not assigned yet, when \<^verbatim>\<open>next.config.js\<close> changes; then
  both starts run to their end.
\<close>

definition overlap_events :: "event list" where
  "overlap_events =
     [DirChecked True, DevConfigLoaded None,
      WorkerCreated False (Some some_config) (Inr [True]),
      ServerStarted False 0 None,
      ConfigChange ''next.config.js'' some_config [],
      WorkerCreated True (Some some_config) (Inr [True]),
      ServerStarted True 1 None,
      PreflightDone False 0 None, PreflightDone True 1 None]"

lemma kept_refl: "kept st st"
  by (simp add: kept_def)

lemma kept_trans: "kept a b \<Longrightarrow> kept b c \<Longrightarrow> kept a c"
  by (simp add: kept_def)

lemma kept_emit: "listener_effect e \<Longrightarrow> kept st (emit_effect e st)"
  by (simp add: kept_def core_def emit_effect_def)

lemma kept_reallyExit: "kept st (reallyExit c st)"
  by (simp add: kept_def core_def reallyExit_def)

lemma kept_reject: "kept st (reject e st)"
  by (simp add: kept_def core_def reject_def)

lemma kept_child_kill: "kept st (child_kill sg c st)"
  by (simp add: kept_def core_def child_kill_def child_upd_def emit_effect_def map_update
        list_update_same_conv)

lemma kept_fold_kill: "kept st (fold (child_kill sg) cs st)"
proof (induction cs arbitrary: st)
  case Nil
  show ?case by (simp add: kept_refl)
next
  case (Cons c cs)
  show ?case using kept_trans [OF kept_child_kill Cons.IH] by simp
qed

lemma pool_children_kept: "kept st st' \<Longrightarrow> pool_children w st' = pool_children w st"
  by (auto simp: kept_def core_def pool_children_def dest: arg_cong [where f = workers])

lemma kept_cleanup:
  assumes "\<And>c s. kept s (exit c s)"
  shows "kept st (cleanup exit w st)"
  unfolding cleanup_def using kept_trans [OF kept_fold_kill assms] .

lemma kept_record_and_flush: "kept st (record_and_flush x t p a st)"
  by (simp add: record_and_flush_def kept_def core_def emit_effect_def Let_def split: option.splits)

lemma kept_stop_telemetry: "kept st (stop_telemetry x c st)"
  by (simp add: stop_telemetry_def kept_refl kept_record_and_flush split: sum.splits prod.splits)

lemma kept_upload_trace_step: "upload_trace_step x st = Inr st1 \<Longrightarrow> kept st st1"
  by (auto simp: upload_trace_step_def kept_refl kept_emit split: option.splits if_splits)

lemma kept_restore_cursor: "kept st (restore_cursor st)"
  by (simp add: restore_cursor_def kept_def core_def emit_effect_def)

lemma kept_stop_finish:
  assumes "\<And>c s. kept s (exit c s)"
  shows "kept st (stop_finish exit x st)"
proof (cases "upload_trace_step x st")
  case (Inl e)
  then show ?thesis by (simp add: stop_finish_def kept_reject)
next
  case (Inr st1)
  have "kept st (exit 0 (restore_cursor st1))"
    using kept_trans [OF kept_upload_trace_step [OF Inr] kept_trans [OF kept_restore_cursor assms]] .
  with Inr show ?thesis by (simp add: stop_finish_def)
qed

lemma kept_handleSessionStop:
  assumes "\<And>c s. kept s (exit c s)"
  shows "kept st (handleSessionStop exit x st)"
proof -
  have f: "kept st (st\<lparr>sessionStopHandled := True\<rparr>)"
    by (simp add: kept_def core_def)
  have s: "kept st (suspend StopAwaitLoadConfig (emit_effect LoadConfigCall (st\<lparr>sessionStopHandled := True\<rparr>)))"
    by (simp add: kept_def core_def suspend_def emit_effect_def)
  note fin = kept_stop_finish [of exit, OF assms]
  show ?thesis
    unfolding handleSessionStop_def Let_def
    by (auto split: option.splits
             intro: kept_refl s kept_trans [OF f fin]
                    kept_trans [OF f kept_trans [OF kept_stop_telemetry fin]])
qed

lemma kept_call_listener:
  assumes "\<And>c s. kept s (exit c s)"
  shows "kept st (call_listener exit x l st)"
  unfolding call_listener_def
  by (cases l) (simp_all add: kept_handleSessionStop [OF assms] kept_cleanup [OF assms])

lemma kept_dispatch:
  assumes "\<And>c s. kept s (exit c s)"
  shows "kept st (dispatch exit x ls st)"
  unfolding dispatch_def
proof (induction ls arbitrary: st)
  case Nil
  show ?case by (simp add: kept_refl)
next
  case (Cons l ls)
  show ?case
    using kept_trans [OF kept_call_listener [of exit, OF assms] Cons.IH] Cons.IH
    by simp
qed

lemma kept_process_exit: "kept st (process_exit x c st)"
  unfolding process_exit_def Let_def
  using kept_dispatch [of reallyExit st x, OF kept_reallyExit]
  by (auto intro: kept_trans [OF _ kept_reallyExit])

lemma kept_handle_rejection: "kept st (handle_rejection x e st)"
proof -
  have a: "kept st (emit_effect (UnhandledRejectionOf e) st)"
    by (simp add: kept_emit)
  have b: "kept s (emit_effect (ConsoleError e) s)" for s
    by (simp add: kept_emit)
  note d = kept_dispatch [of "process_exit x", OF kept_process_exit]
  show ?thesis
    unfolding handle_rejection_def Let_def
    by (auto intro: kept_trans [OF a d] kept_trans [OF a kept_trans [OF b kept_process_exit]])
qed

lemma kept_drain_rejections: "kept st (drain_rejections x st)"
proof -
  have a: "kept s (fold (\<lambda>e s. if exited s = None then handle_rejection x e s else s) es s)" for es s
  proof (induction es arbitrary: s)
    case Nil
    show ?case by (simp add: kept_refl)
  next
    case (Cons e es)
    show ?case using kept_trans [OF kept_handle_rejection Cons.IH] Cons.IH by simp
  qed
  have b: "kept st (st\<lparr>rejections := []\<rparr>)"
    by (simp add: kept_def core_def)
  show ?thesis unfolding drain_rejections_def using kept_trans [OF b a] .
qed

lemma kept_fields:
  assumes "kept st st'"
  shows "workers st' = workers st" and "plisteners st' = plisteners st"
    and "runningServer st' = runningServer st" and "watching st' = watching st"
    and "config st' = config st" and "nd_args st' = nd_args st"
    and "devServerOptions st' = devServerOptions st" and "penv st' = penv st"
    and "nd_allowRetry st' = nd_allowRetry st" and "nd_host st' = nd_host st"
    and "traceUploadUrl st' = traceUploadUrl st" and "diskConfig st' = diskConfig st"
    and "dir st' = dir st" and "nd_port st' = nd_port st"
    and "nd_expFeatureInfo st' = nd_expFeatureInfo st"
proof -
  have c: "core st' = core st" using assms by (simp add: kept_def)
  show "workers st' = workers st" using arg_cong [OF c, of workers] by (simp add: core_def)
  show "plisteners st' = plisteners st" using arg_cong [OF c, of plisteners] by (simp add: core_def)
  show "runningServer st' = runningServer st" using arg_cong [OF c, of runningServer] by (simp add: core_def)
  show "watching st' = watching st" using arg_cong [OF c, of watching] by (simp add: core_def)
  show "config st' = config st" using arg_cong [OF c, of config] by (simp add: core_def)
  show "nd_args st' = nd_args st" using arg_cong [OF c, of nd_args] by (simp add: core_def)
  show "devServerOptions st' = devServerOptions st" using arg_cong [OF c, of devServerOptions] by (simp add: core_def)
  show "penv st' = penv st" using arg_cong [OF c, of penv] by (simp add: core_def)
  show "nd_allowRetry st' = nd_allowRetry st" using arg_cong [OF c, of nd_allowRetry] by (simp add: core_def)
  show "nd_host st' = nd_host st" using arg_cong [OF c, of nd_host] by (simp add: core_def)
  show "traceUploadUrl st' = traceUploadUrl st" using arg_cong [OF c, of traceUploadUrl] by (simp add: core_def)
  show "diskConfig st' = diskConfig st" using arg_cong [OF c, of diskConfig] by (simp add: core_def)
  show "dir st' = dir st" using arg_cong [OF c, of dir] by (simp add: core_def)
  show "nd_port st' = nd_port st" using arg_cong [OF c, of nd_port] by (simp add: core_def)
  show "nd_expFeatureInfo st' = nd_expFeatureInfo st" using arg_cong [OF c, of nd_expFeatureInfo] by (simp add: core_def)
qed

lemma fold_child_shape:
  assumes "\<And>c s. f c s = s\<lparr>children := children (f c s)\<rparr>"
  shows "fold f cs st = st\<lparr>children := children (fold f cs st)\<rparr>"
proof (induction cs arbitrary: st)
  case Nil
  show ?case by simp
next
  case (Cons c cs)
  have g: "(f c st)\<lparr>children := X\<rparr> = st\<lparr>children := X\<rparr>" for X
    by (subst assms [of c st]) simp
  have "fold f (c # cs) st = fold f cs (f c st)" by simp
  also have "\<dots> = (f c st)\<lparr>children := children (fold f cs (f c st))\<rparr>" by (rule Cons.IH)
  also have "\<dots> = st\<lparr>children := children (fold f cs (f c st))\<rparr>" by (rule g)
  finally show ?case by simp
qed

lemma child_upd_shape: "child_upd c f st = st\<lparr>children := children (child_upd c f st)\<rparr>"
  by (simp add: child_upd_def)

lemma fold_on_exit_shape:
  "fold (child_on_exit l) cs st = st\<lparr>children := children (fold (child_on_exit l) cs st)\<rparr>"
  by (rule fold_child_shape) (simp add: child_on_exit_def child_upd_def)

lemma fold_off_exit_shape:
  "fold (child_off_exit l) cs st = st\<lparr>children := children (fold (child_off_exit l) cs st)\<rparr>"
  by (rule fold_child_shape) (simp add: child_off_exit_def child_upd_def)

lemma createRouterWorker_fst: "fst (createRouterWorker fullConfig shape st) = length (workers st)"
  by (simp add: createRouterWorker_def Let_def)

lemma createRouterWorker_shape:
  "snd (createRouterWorker fullConfig shape st) =
     st\<lparr>workers := workers st @ [new_worker fullConfig (length (children st)) shape],
        children := children (snd (createRouterWorker fullConfig shape st)),
        effects := effects st @ [WorkerNew (length (workers st))],
        plisteners := plisteners st @ worker_listeners (length (workers st))\<rparr>"
  unfolding createRouterWorker_def Let_def
  apply (subst fold_on_exit_shape)
  apply (simp add: process_on_def emit_effect_def new_worker_def worker_listeners_def)
  done

lemma async_cleanup_shape:
  "async_cleanup w st =
     st\<lparr>children := children (async_cleanup w st),
        plisteners := fold (\<lambda>e. remove_last (e, Cleanup w))
                        [EvExit, SIGINT, SIGTERM, UncaughtException, UnhandledRejection] (plisteners st),
        workers := (if w < length (workers st)
                    then (workers st)[w := (workers st ! w)\<lparr>w_status := Ending\<rparr>] else workers st),
        effects := effects st @ [WorkerEndCall w]\<rparr>"
  unfolding async_cleanup_def Let_def
  apply (subst fold_off_exit_shape)
  apply (simp add: process_off_def emit_effect_def worker_upd_def)
  done

lemmas view_defs = stop_view_def stop_pending_def quiet_def once_def Inv_stop_def calm_def

lemma calm_refl: "calm st st"
  by (simp add: calm_def)

lemma calm_trans: "calm a b \<Longrightarrow> calm b c \<Longrightarrow> calm a c"
  by (simp add: calm_def)

lemma calm_flag: "calm st st' \<Longrightarrow> sessionStopHandled st' = sessionStopHandled st"
  by (simp add: calm_def stop_view_def)

lemma calm_Inv: "calm st st' \<Longrightarrow> Inv_stop st \<Longrightarrow> Inv_stop st'"
  by (simp add: view_defs)

lemma good_calm: "(\<And>s. calm s (f s)) \<Longrightarrow> good f"
  unfolding good_def using calm_Inv by blast

lemma good_comp:
  assumes "good f" and "good g"
  shows "good (\<lambda>s. g (f s))"
proof -
  have 1: "Inv_stop (g (f s))" if "Inv_stop s" for s :: pstate
    using assms that by (simp add: good_def)
  have 2: "calm s (g (f s))" if h: "sessionStopHandled s" for s :: pstate
  proof -
    have c: "calm s (f s)" using assms(1) h by (simp add: good_def)
    then have "sessionStopHandled (f s)" using h by (simp add: calm_flag)
    then have "calm (f s) (g (f s))" using assms(2) by (simp add: good_def)
    with c show ?thesis by (rule calm_trans)
  qed
  show ?thesis unfolding good_def using 1 2 by blast
qed

lemma good_Inv: "good f \<Longrightarrow> Inv_stop s \<Longrightarrow> Inv_stop (f s)"
  by (simp add: good_def)

lemma good_flagged: "good f \<Longrightarrow> sessionStopHandled s \<Longrightarrow> calm s (f s)"
  by (simp add: good_def)

lemma good_reallyExit: "good (reallyExit c)"
  by (rule good_calm) (simp add: view_defs reallyExit_def)

lemma calm_emit:
  "\<not> is_telemetry_record e \<Longrightarrow> \<not> is_telemetry_flush e \<Longrightarrow> \<not> is_trace_upload e \<Longrightarrow>
   \<not> is_stdout_write e \<Longrightarrow> calm st (emit_effect e st)"
  by (simp add: view_defs emit_effect_def)

lemma calm_reject: "calm st (reject e st)"
  by (simp add: view_defs reject_def)

lemma calm_child_kill: "calm st (child_kill sg c st)"
  by (simp add: view_defs child_kill_def child_upd_def emit_effect_def)

lemma calm_fold_kill: "calm st (fold (child_kill sg) cs st)"
proof (induction cs arbitrary: st)
  case Nil
  show ?case by (simp add: calm_refl)
next
  case (Cons c cs)
  show ?case using calm_trans [OF calm_child_kill Cons.IH] by simp
qed

lemma good_cleanup:
  assumes "\<And>c. good (exit c)"
  shows "good (cleanup exit w)"
  unfolding cleanup_def
  by (rule good_comp [OF good_calm assms]) (rule calm_fold_kill)

lemma half_record_and_flush: "fresh st \<Longrightarrow> half (record_and_flush x t p a st)"
  by (simp add: fresh_def half_def quiet_def stop_pending_def record_and_flush_def
        emit_effect_def Let_def split: option.splits)

lemma fresh_half: "fresh st \<Longrightarrow> half st"
  by (simp add: fresh_def half_def quiet_def)

lemma half_stop_telemetry: "fresh st \<Longrightarrow> half (stop_telemetry x c st)"
  by (simp add: stop_telemetry_def fresh_half half_record_and_flush split: sum.splits prod.splits)

lemma half_Inv: "half st \<Longrightarrow> Inv_stop st"
  by (simp add: half_def view_defs)

lemma half_reject: "half st \<Longrightarrow> half (reject e st)"
  by (simp add: half_def stop_pending_def reject_def)

lemma full_Inv: "full st \<Longrightarrow> Inv_stop st"
  by (simp add: full_def view_defs)

lemma full_calm: "calm st st' \<Longrightarrow> full st \<Longrightarrow> full st'"
  by (simp add: full_def view_defs)

lemma full_upload_restore:
  "half st \<Longrightarrow> upload_trace_step x st = Inr st1 \<Longrightarrow> full (restore_cursor st1)"
  by (auto simp: half_def full_def upload_trace_step_def restore_cursor_def emit_effect_def
        stop_pending_def once_def split: option.splits if_splits)

lemma Inv_stop_finish:
  assumes "\<And>c. good (exit c)" and "half st"
  shows "Inv_stop (stop_finish exit x st)"
proof (cases "upload_trace_step x st")
  case (Inl e)
  then show ?thesis using half_Inv [OF half_reject [OF assms(2)]] by (simp add: stop_finish_def)
next
  case (Inr st1)
  have f: "full (restore_cursor st1)" using full_upload_restore [OF assms(2) Inr] .
  then have "sessionStopHandled (restore_cursor st1)" by (simp add: full_def)
  then have "calm (restore_cursor st1) (exit 0 (restore_cursor st1))"
    using assms(1) by (simp add: good_def)
  then have "full (exit 0 (restore_cursor st1))" using f by (rule full_calm)
  then show ?thesis using Inr by (simp add: stop_finish_def full_Inv)
qed

lemma good_handleSessionStop:
  assumes "\<And>c. good (exit c)"
  shows "good (handleSessionStop exit x)"
  unfolding good_def
proof (intro conjI allI impI)
  fix s :: pstate
  assume "sessionStopHandled s"
  then show "calm s (handleSessionStop exit x s)"
    by (simp add: handleSessionStop_def calm_refl)
next
  fix s :: pstate
  assume inv: "Inv_stop s"
  show "Inv_stop (handleSessionStop exit x s)"
  proof (cases "sessionStopHandled s")
    case True
    then show ?thesis using inv by (simp add: handleSessionStop_def)
  next
    case False
    let ?s1 = "s\<lparr>sessionStopHandled := True\<rparr>"
    have fr: "fresh ?s1" using inv False by (simp add: fresh_def view_defs)
    have a: "Inv_stop (stop_finish exit x ?s1)"
      using Inv_stop_finish [OF assms fresh_half [OF fr]] .
    have b: "Inv_stop (stop_finish exit x (stop_telemetry x c ?s1))" for c
      using Inv_stop_finish [OF assms half_stop_telemetry [OF fr]] .
    have c: "Inv_stop (suspend StopAwaitLoadConfig (emit_effect LoadConfigCall ?s1))"
      using fr by (simp add: fresh_def view_defs suspend_def emit_effect_def)
    show ?thesis
      using False a b c by (simp add: handleSessionStop_def Let_def split: option.splits)
  qed
qed

lemma good_call_listener:
  assumes "\<And>c. good (exit c)"
  shows "good (call_listener exit x l)"
proof (cases l)
  case HandleSessionStop
  then have "call_listener exit x l = handleSessionStop exit x"
    by (intro ext) (simp add: call_listener_def)
  then show ?thesis using good_handleSessionStop [OF assms] by simp
next
  case (Cleanup w)
  then have "call_listener exit x l = cleanup exit w"
    by (intro ext) (simp add: call_listener_def)
  then show ?thesis using good_cleanup [OF assms] by simp
qed

lemma good_id: "good (\<lambda>s. s)"
  by (simp add: good_def calm_refl)

lemma good_if: "good f \<Longrightarrow> good (\<lambda>s. if exited s = None then f s else s)"
  by (simp add: good_def calm_refl)

lemma good_fold:
  assumes "\<And>l. good (f l)"
  shows "good (fold f ls)"
proof (induction ls)
  case Nil
  show ?case using good_id by (simp add: id_def)
next
  case (Cons l ls)
  have "fold f (l # ls) = (\<lambda>s. fold f ls (f l s))" by auto
  then show ?case using good_comp [OF assms Cons] by simp
qed

lemma good_dispatch:
  assumes "\<And>c. good (exit c)"
  shows "good (dispatch exit x ls)"
proof -
  have "dispatch exit x ls = fold (\<lambda>l s. if exited s = None then call_listener exit x l s else s) ls"
    by (rule ext) (simp add: dispatch_def)
  then show ?thesis using good_fold [of "\<lambda>l s. if exited s = None then call_listener exit x l s else s" ls]
      good_if [OF good_call_listener [OF assms]] by simp
qed

lemma good_process_exit: "good (process_exit x c)"
proof -
  have e: "process_exit x c =
        (\<lambda>s. (\<lambda>s1. if exited s1 = None then reallyExit c s1 else s1)
               (dispatch reallyExit x (listeners_of EvExit s) s))"
    by (intro ext) (simp add: process_exit_def Let_def)
  have d: "good (dispatch reallyExit x ls)" for ls
    by (rule good_dispatch) (rule good_reallyExit)
  have i1: "Inv_stop (process_exit x c s)" if "Inv_stop s" for s
    using good_Inv [OF good_if [OF good_reallyExit] good_Inv [OF d that]]
    by (simp add: process_exit_def Let_def)
  have i2: "calm s (process_exit x c s)" if "sessionStopHandled s" for s
  proof -
    let ?s1 = "dispatch reallyExit x (listeners_of EvExit s) s"
    have c1: "calm s ?s1" using good_flagged [OF d that] .
    then have "sessionStopHandled ?s1" using that by (simp add: calm_flag)
    then have "calm ?s1 (if exited ?s1 = None then reallyExit c ?s1 else ?s1)"
      using good_flagged [OF good_if [OF good_reallyExit]] by simp
    then have "calm s (if exited ?s1 = None then reallyExit c ?s1 else ?s1)"
      using c1 calm_trans by blast
    then show ?thesis by (simp add: process_exit_def Let_def)
  qed
  show ?thesis unfolding good_def using i1 i2 by blast
qed

lemma good_handle_rejection: "good (handle_rejection x e)"
proof -
  have d: "good (dispatch (process_exit x) x ls)" for ls
    by (rule good_dispatch) (rule good_process_exit)
  have a: "good (emit_effect (UnhandledRejectionOf e))"
    by (rule good_calm) (simp add: calm_emit)
  have b: "good (emit_effect (ConsoleError e))"
    by (rule good_calm) (simp add: calm_emit)
  have i1: "Inv_stop (handle_rejection x e s)" if "Inv_stop s" for s
    using good_Inv [OF d good_Inv [OF a that]]
      good_Inv [OF good_process_exit good_Inv [OF b good_Inv [OF a that]]]
    by (simp add: handle_rejection_def Let_def)
  have i2: "calm s (handle_rejection x e s)" if "sessionStopHandled s" for s
  proof -
    let ?s1 = "emit_effect (UnhandledRejectionOf e) s"
    have c1: "calm s ?s1" by (simp add: calm_emit)
    then have f1: "sessionStopHandled ?s1" using that by (simp add: calm_flag)
    have c2: "calm ?s1 (dispatch (process_exit x) x ls ?s1)" for ls
      using good_flagged [OF d f1] .
    have c3: "calm ?s1 (emit_effect (ConsoleError e) ?s1)" by (simp add: calm_emit)
    then have "sessionStopHandled (emit_effect (ConsoleError e) ?s1)" using f1 by (simp add: calm_flag)
    then have c4: "calm (emit_effect (ConsoleError e) ?s1) (process_exit x 1 (emit_effect (ConsoleError e) ?s1))"
      using good_flagged [OF good_process_exit] by simp
    show ?thesis
      using calm_trans [OF c1 c2] calm_trans [OF c1 calm_trans [OF c3 c4]]
      by (simp add: handle_rejection_def Let_def)
  qed
  show ?thesis unfolding good_def using i1 i2 by blast
qed

lemma good_drain_rejections: "good (drain_rejections x)"
proof -
  have r: "good (\<lambda>s. s\<lparr>rejections := []\<rparr>)"
    by (rule good_calm) (simp add: view_defs)
  have f: "good (fold (\<lambda>e s. if exited s = None then handle_rejection x e s else s) es)" for es
    by (rule good_fold) (rule good_if [OF good_handle_rejection])
  have i1: "Inv_stop (drain_rejections x s)" if "Inv_stop s" for s
    using good_Inv [OF f good_Inv [OF r that]] by (simp add: drain_rejections_def)
  have i2: "calm s (drain_rejections x s)" if "sessionStopHandled s" for s
  proof -
    have c1: "calm s (s\<lparr>rejections := []\<rparr>)" by (simp add: view_defs)
    then have "sessionStopHandled (s\<lparr>rejections := []\<rparr>)" using that by simp
    from good_flagged [OF f this] c1
    have "calm s (fold (\<lambda>e s. if exited s = None then handle_rejection x e s else s) es
                   (s\<lparr>rejections := []\<rparr>))" for es
      using calm_trans by blast
    then show ?thesis by (simp add: drain_rejections_def)
  qed
  show ?thesis unfolding good_def using i1 i2 by blast
qed

lemma filter_remove1_other: "\<not> P t \<Longrightarrow> filter P (remove1 t xs) = filter P xs"
  by (induction xs) auto

lemma calm_take_task: "t \<noteq> StopAwaitLoadConfig \<Longrightarrow> calm st (st\<lparr>tasks := remove1 t (tasks st)\<rparr>)"
  by (simp add: view_defs filter_remove1_other)

lemma calm_suspend: "t \<noteq> StopAwaitLoadConfig \<Longrightarrow> calm st (suspend t st)"
  by (simp add: view_defs suspend_def)

lemma good_resume:
  assumes "good k" and "t \<noteq> StopAwaitLoadConfig"
  shows "good (resume t k)"
proof -
  have i1: "Inv_stop (resume t k s)" if "Inv_stop s" for s
    using good_Inv [OF assms(1) calm_Inv [OF calm_take_task [OF assms(2)] that]] that
    by (simp add: resume_def)
  have i2: "calm s (resume t k s)" if h: "sessionStopHandled s" for s
  proof -
    have c1: "calm s (s\<lparr>tasks := remove1 t (tasks s)\<rparr>)" using calm_take_task [OF assms(2)] .
    have "calm (s\<lparr>tasks := remove1 t (tasks s)\<rparr>) (k (s\<lparr>tasks := remove1 t (tasks s)\<rparr>))"
      using good_flagged [OF assms(1)] h by simp
    then have "calm s (k (s\<lparr>tasks := remove1 t (tasks s)\<rparr>))" using c1 calm_trans by blast
    then show ?thesis by (simp add: resume_def calm_refl)
  qed
  show ?thesis unfolding good_def using i1 i2 by blast
qed

lemma good_run_failed: "good (run_failed x e)"
proof -
  have "run_failed x e = (\<lambda>s. process_exit x 1 (emit_effect (ConsoleError e) s))"
    by (intro ext) (simp add: run_failed_def)
  moreover have "good (emit_effect (ConsoleError e))"
    by (rule good_calm) (simp add: calm_emit)
  ultimately show ?thesis using good_comp [OF _ good_process_exit] by simp
qed

lemma calm_runDevServer: "calm st (runDevServer reboot st)"
  by (simp add: runDevServer_def calm_suspend)

lemma calm_start_server: "calm st (start_server reboot w opts st)"
  by (simp add: start_server_def view_defs suspend_def worker_upd_def emit_effect_def)

lemma calm_run_after_create: "calm st (run_after_create x reboot w st)"
  by (simp add: run_after_create_def Let_def view_defs start_server_def suspend_def worker_upd_def
        emit_effect_def split: option.splits prod.splits)

lemma calm_createRouterWorker: "calm st (snd (createRouterWorker fullConfig shape st))"
  by (subst createRouterWorker_shape) (simp add: view_defs)

lemma calm_async_cleanup: "calm st (async_cleanup w st)"
  by (subst async_cleanup_shape) (simp add: view_defs)

lemma good_worker_created: "good (worker_created x reboot cfg oc)"
proof (cases oc)
  case (Inl e)
  then have "worker_created x reboot cfg oc = run_failed x e"
    by (intro ext) (simp add: worker_created_def)
  then show ?thesis using good_run_failed by simp
next
  case (Inr shape)
  show ?thesis
  proof (cases cfg)
    case None
    then have "worker_created x reboot cfg oc = run_failed x ''TypeError''"
      using Inr by (intro ext) (simp add: worker_created_def)
    then show ?thesis using good_run_failed by simp
  next
    case (Some fullConfig)
    have "calm s (worker_created x reboot cfg oc s)" for s
      using calm_trans [OF calm_createRouterWorker calm_run_after_create] Inr Some
      by (simp add: worker_created_def split: prod.splits) (metis snd_conv)
    then show ?thesis by (rule good_calm)
  qed
qed

lemma good_cert_created: "good (cert_created x reboot w oc)"
proof (cases oc)
  case (Inl e)
  then have "cert_created x reboot w oc = run_failed x e"
    by (intro ext) (simp add: cert_created_def)
  then show ?thesis using good_run_failed by simp
next
  case (Inr c)
  then have "calm s (cert_created x reboot w oc s)" for s
    by (simp add: cert_created_def calm_start_server)
  then show ?thesis by (rule good_calm)
qed

lemma good_server_started: "good (server_started x reboot w oc)"
proof (cases oc)
  case (Some e)
  then have "server_started x reboot w oc = run_failed x e"
    by (intro ext) (simp add: server_started_def)
  then show ?thesis using good_run_failed by simp
next
  case None
  then have "calm s (server_started x reboot w oc s)" for s
    by (simp add: server_started_def view_defs suspend_def emit_effect_def worker_upd_def)
  then show ?thesis by (rule good_calm)
qed

lemma good_preflight_done: "good (preflight_done x reboot w oc)"
proof (cases oc)
  case (Some e)
  then have "preflight_done x reboot w oc = run_failed x e"
    by (intro ext) (simp add: preflight_done_def)
  then show ?thesis using good_run_failed by simp
next
  case None
  then have "calm s (preflight_done x reboot w oc s)" for s
    by (simp add: preflight_done_def view_defs)
  then show ?thesis by (rule good_calm)
qed

lemma good_worker_ended: "good (worker_ended x w oc)"
proof (cases oc)
  case (Some e)
  then have "worker_ended x w oc = run_failed x e"
    by (intro ext) (simp add: worker_ended_def)
  then show ?thesis using good_run_failed by simp
next
  case None
  then have "calm s (worker_ended x w oc s)" for s
    by (simp add: worker_ended_def runDevServer_def view_defs suspend_def worker_upd_def)
  then show ?thesis by (rule good_calm)
qed

lemma calm_restart: "calm st (restart st)"
proof -
  have b: "calm st (suspend (RestartAwaitCleanup w) (async_cleanup w st))" for w
    using calm_trans [OF calm_async_cleanup calm_suspend] by simp
  show ?thesis unfolding restart_def using b calm_runDevServer by (simp split: option.splits)
qed

lemma calm_on_config_change: "calm st (on_config_change x filename st)"
proof -
  have a: "calm st (emit_effect (LogWarn m) (emit_effect (LogWarn []) st))" for m
    by (simp add: view_defs emit_effect_def)
  show ?thesis
    unfolding on_config_change_def
    using calm_trans [OF a calm_restart] by (simp add: calm_emit)
qed

lemma calm_dev_start: "calm st (dev_start st)"
  by (simp add: dev_start_def runDevServer_def view_defs suspend_def)

lemma good_dev_dir_checked: "good (dev_dir_checked x found)"
proof (cases found)
  case False
  have "dev_dir_checked x found =
        (\<lambda>s. process_exit x 1 (emit_effect (ConsoleError (''> No such directory exists as the project root: '' @
                            (case dir s of None \<Rightarrow> ''undefined'' | Some d \<Rightarrow> d))) s))"
    using False by (intro ext) (simp add: dev_dir_checked_def)
  moreover have "good (\<lambda>s. emit_effect (ConsoleError (f s)) s)" for f
    by (rule good_calm) (simp add: calm_emit)
  ultimately show ?thesis using good_comp [OF _ good_process_exit] by simp
next
  case True
  then have "calm s (dev_dir_checked x found s)" for s
    by (simp add: dev_dir_checked_def view_defs suspend_def emit_effect_def)
  then show ?thesis by (rule good_calm)
qed

lemma calm_dev_config_loaded: "calm st (dev_config_loaded x oc st)"
  by (cases oc) (simp_all add: dev_config_loaded_def Let_def dev_start_def runDevServer_def
        view_defs suspend_def emit_effect_def)

lemma calm_turbo_validated: "calm st (turbo_validated x oc st)"
  by (cases oc) (simp_all add: turbo_validated_def calm_dev_start calm_emit)

lemma Inv_stop_config_loaded:
  assumes "Inv_stop st" and "StopAwaitLoadConfig \<in> set (tasks st)"
  shows "Inv_stop (stop_config_loaded (process_exit x) x oc (st\<lparr>tasks := remove1 StopAwaitLoadConfig (tasks st)\<rparr>))"
proof -
  let ?s = "st\<lparr>tasks := remove1 StopAwaitLoadConfig (tasks st)\<rparr>"
  have p: "stop_pending st \<noteq> 0"
    using assms(2) by (auto simp: stop_pending_def filter_empty_conv)
  then have q: "quiet st" and p1: "stop_pending st = 1" and f: "sessionStopHandled st"
    using assms(1) by (auto simp: Inv_stop_def)
  have "stop_pending ?s = stop_pending st - 1"
    using assms(2) by (simp add: stop_pending_def filter_remove1 length_remove1)
  then have fr: "fresh ?s" using q p1 f by (simp add: fresh_def quiet_def)
  then have fr2: "fresh (?s\<lparr>config := c\<rparr>)" for c
    by (simp add: fresh_def quiet_def stop_pending_def)
  note g = good_process_exit
  show ?thesis
    using Inv_stop_finish [of "process_exit x", OF g fresh_half [OF fr]]
      Inv_stop_finish [of "process_exit x", OF g half_stop_telemetry [OF fr2]]
    by (simp add: stop_config_loaded_def Let_def split: option.splits)
qed

lemma Inv_stop_react: "Inv_stop st \<Longrightarrow> Inv_stop (react x ev st)"
proof (cases ev)
  case (Signal sg)
  assume i: "Inv_stop st"
  have "Inv_stop (dispatch (process_exit x) x ls st)" for ls
    using good_Inv [OF good_dispatch [of "process_exit x", OF good_process_exit] i] .
  moreover have "Inv_stop (reallyExit c st)" for c
    using good_Inv [OF good_reallyExit i] .
  ultimately show ?thesis using Signal by simp
next
  case (ConfigChange filename c fs)
  assume i: "Inv_stop st"
  let ?s1 = "st\<lparr>diskConfig := c, diskFeatures := fs\<rparr>"
  have "calm st ?s1" by (simp add: view_defs)
  then have i1: "Inv_stop ?s1" using i by (rule calm_Inv)
  then have "Inv_stop (on_config_change x filename ?s1)"
    using calm_Inv [OF calm_on_config_change] by blast
  then show ?thesis using ConfigChange i1 by (simp add: Let_def)
next
  case (ChildExit c)
  assume i: "Inv_stop st"
  have "calm st (child_upd c f st)" for f
    by (simp add: view_defs child_upd_def)
  then have "Inv_stop (child_upd c f st)" for f using i calm_Inv by blast
  then have "Inv_stop (dispatch (process_exit x) x ls (child_upd c f st))" for ls f
    using good_Inv [OF good_dispatch [of "process_exit x", OF good_process_exit]] by blast
  then show ?thesis using ChildExit i by simp
next
  case (DirChecked found)
  assume i: "Inv_stop st"
  show ?thesis using DirChecked good_Inv [OF good_resume [OF good_dev_dir_checked] i] by simp
next
  case (DevConfigLoaded oc)
  assume i: "Inv_stop st"
  have "good (dev_config_loaded x oc)" by (rule good_calm) (rule calm_dev_config_loaded)
  then show ?thesis using DevConfigLoaded good_Inv [OF good_resume i] by simp
next
  case (TurboValidated oc)
  assume i: "Inv_stop st"
  have "good (turbo_validated x oc)" by (rule good_calm) (rule calm_turbo_validated)
  then show ?thesis using TurboValidated good_Inv [OF good_resume i] by simp
next
  case (StopConfigLoaded oc)
  assume i: "Inv_stop st"
  show ?thesis using StopConfigLoaded i Inv_stop_config_loaded [OF i] by (simp add: resume_def)
next
  case (WorkerCreated reboot cfg oc)
  assume i: "Inv_stop st"
  show ?thesis using WorkerCreated good_Inv [OF good_resume [OF good_worker_created] i] by simp
next
  case (CertCreated reboot w oc)
  assume i: "Inv_stop st"
  show ?thesis using CertCreated good_Inv [OF good_resume [OF good_cert_created] i] by simp
next
  case (ServerStarted reboot w oc)
  assume i: "Inv_stop st"
  show ?thesis using ServerStarted good_Inv [OF good_resume [OF good_server_started] i] by simp
next
  case (PreflightDone reboot w oc)
  assume i: "Inv_stop st"
  show ?thesis using PreflightDone good_Inv [OF good_resume [OF good_preflight_done] i] by simp
next
  case (WorkerEnded w oc)
  assume i: "Inv_stop st"
  show ?thesis using WorkerEnded good_Inv [OF good_resume [OF good_worker_ended] i] by simp
qed

lemma Inv_stop_step: "Inv_stop st \<Longrightarrow> Inv_stop (step x ev st)"
  using good_Inv [OF good_drain_rejections Inv_stop_react] by (simp add: step_def)

lemma Inv_stop_run: "Inv_stop st \<Longrightarrow> Inv_stop (run x evs st)"
  unfolding run_def by (induction evs arbitrary: st) (simp_all add: Inv_stop_step)

lemma Inv_stop_module_loaded: "Inv_stop (module_loaded now env disk feats)"
  by (simp add: module_loaded_def view_defs)

lemma Inv_stop_nextDev: "Inv_stop st \<Longrightarrow> Inv_stop (nextDev x a st)"
proof -
  assume i: "Inv_stop st"
  have a: "Inv_stop (process_exit x 0 (emit_effect (ConsoleLog h) st))" for h
    using good_Inv [OF good_process_exit calm_Inv [OF calm_emit i]] by simp
  have "calm st (suspend DevAwaitFileExists (st\<lparr>nd_args := a, dir := d\<rparr>))" for d
    by (simp add: view_defs suspend_def)
  then have "Inv_stop (suspend DevAwaitFileExists (st\<lparr>nd_args := a, dir := d\<rparr>))" for d
    using i calm_Inv by blast
  then show ?thesis using a by (simp add: nextDev_def)
qed

lemma Inv_stop_session: "Inv_stop (session x a now env disk feats evs)"
  unfolding session_def by (intro Inv_stop_run Inv_stop_nextDev Inv_stop_module_loaded)

section \<open>The stop handler runs its body at most once\<close>

lemma stop_finish_flag:
  assumes "\<And>c. good (exit c)" and "sessionStopHandled st"
  shows "sessionStopHandled (stop_finish exit x st)"
proof (cases "upload_trace_step x st")
  case (Inl e)
  then show ?thesis using assms(2) by (simp add: stop_finish_def reject_def)
next
  case (Inr st1)
  then have "sessionStopHandled st1"
    using assms(2) by (auto simp: upload_trace_step_def emit_effect_def split: option.splits if_splits)
  then have f: "sessionStopHandled (restore_cursor st1)"
    by (simp add: restore_cursor_def emit_effect_def)
  have "calm (restore_cursor st1) (exit 0 (restore_cursor st1))"
    using good_flagged [OF assms(1) f] .
  then show ?thesis using Inr f by (simp add: stop_finish_def calm_flag)
qed

lemma stop_telemetry_flag: "sessionStopHandled (stop_telemetry x c st) = sessionStopHandled st"
  by (simp add: stop_telemetry_def record_and_flush_def emit_effect_def Let_def
        split: sum.splits prod.splits option.splits)

lemma handleSessionStop_sets_flag:
  assumes "\<And>c. good (exit c)"
  shows "sessionStopHandled (handleSessionStop exit x st)"
proof (cases "sessionStopHandled st")
  case True
  then show ?thesis by (simp add: handleSessionStop_def)
next
  case False
  let ?s1 = "st\<lparr>sessionStopHandled := True\<rparr>"
  have a: "sessionStopHandled (stop_finish exit x ?s1)"
    by (rule stop_finish_flag [OF assms]) simp
  have b: "sessionStopHandled (stop_finish exit x (stop_telemetry x c ?s1))" for c
    by (rule stop_finish_flag [OF assms]) (simp add: stop_telemetry_flag)
  show ?thesis
    using False a b
    by (simp add: handleSessionStop_def Let_def suspend_def emit_effect_def split: option.splits)
qed

lemma pending_flag: "Inv_stop st \<Longrightarrow> StopAwaitLoadConfig \<in> set (tasks st) \<Longrightarrow> sessionStopHandled st"
  by (auto simp: Inv_stop_def stop_pending_def filter_empty_conv)

text \<open>
  C1. In every session, whatever the events are (any number of SIGINT and
  SIGTERM deliveries among them), the body of \<^verbatim>\<open>handleSessionStop\<close> runs at most
  once: at most one telemetry record, one flush and one trace upload are made, and
  standard output receives the cursor sequence and the newline at most once. The
  continuation of the handler is pending only when the flag is set; an invocation
  that finds the flag set changes nothing at all; and every invocation leaves the
  flag set, also when it suspends at its \<^verbatim>\<open>await\<close>.
\<close>

theorem session_stop_at_most_once:
  "once (session x a now env disk feats evs) \<and>
   (StopAwaitLoadConfig \<in> set (tasks (session x a now env disk feats evs)) \<longrightarrow>
      sessionStopHandled (session x a now env disk feats evs)) \<and>
   (sessionStopHandled st \<longrightarrow> handleSessionStop exit x st = st) \<and>
   sessionStopHandled (handleSessionStop (process_exit x) x st)"
proof (intro conjI impI)
  show "once (session x a now env disk feats evs)"
    using Inv_stop_session [of x a now env disk feats evs] by (simp add: Inv_stop_def)
  show "sessionStopHandled (session x a now env disk feats evs)"
    if "StopAwaitLoadConfig \<in> set (tasks (session x a now env disk feats evs))"
    using pending_flag [OF Inv_stop_session that] .
  show "handleSessionStop exit x st = st" if "sessionStopHandled st"
    using that by (simp add: handleSessionStop_def)
  show "sessionStopHandled (handleSessionStop (process_exit x) x st)"
    by (rule handleSessionStop_sets_flag) (rule good_process_exit)
qed

theorem session_stop_at_most_once_witness:
  "sessionStopHandled stopped_state \<and>
   handleSessionStop reallyExit some_ext stopped_state = stopped_state \<and>
   once (session some_ext no_args 0 Map.empty some_config []
           [Signal Sigint, Signal Sigterm, Signal Sigint])"
  using session_stop_at_most_once [of some_ext no_args 0 Map.empty some_config "[]"
      "[Signal Sigint, Signal Sigterm, Signal Sigint]" stopped_state reallyExit]
  by (simp add: stopped_state_def)

section \<open>Manual-restart mode\<close>

text \<open>
  C8. When \<^verbatim>\<open>__NEXT_DISABLE_MEMORY_WATCHER\<close> is set (to a non-empty value) and the
  watcher reports a change, the turn of the event loop that handles it only logs
  the "manual restart required" message: the workers, the children, the listeners,
  the pending continuations and \<^verbatim>\<open>runningServer\<close> are what they were.
\<close>

theorem disabled_watcher_skips_restart:
  assumes "exited st = None" and "watching st" and "rejections st = []"
    and "truthy (penv st ''__NEXT_DISABLE_MEMORY_WATCHER'')"
  shows "step x (ConfigChange filename c fs) st =
           st\<lparr>diskConfig := c, diskFeatures := fs,
              effects := effects st @ [LogInfo manual_restart_message]\<rparr>"
  using assms
  by (simp add: step_def on_config_change_def emit_effect_def drain_rejections_def)

theorem disabled_watcher_skips_restart_witness:
  "exited manual_restart_state = None \<and> watching manual_restart_state \<and>
   rejections manual_restart_state = [] \<and>
   truthy (penv manual_restart_state ''__NEXT_DISABLE_MEMORY_WATCHER'') \<and>
   runningServer (step some_ext (ConfigChange ''next.config.js'' some_config []) manual_restart_state) = Some 0 \<and>
   effects (step some_ext (ConfigChange ''next.config.js'' some_config []) manual_restart_state) =
     [LogInfo manual_restart_message]"
proof -
  have h: "exited manual_restart_state = None" "watching manual_restart_state"
    "rejections manual_restart_state = []"
    "truthy (penv manual_restart_state ''__NEXT_DISABLE_MEMORY_WATCHER'')"
    by (simp_all add: manual_restart_state_def module_loaded_def truthy_def)
  show ?thesis
    using h disabled_watcher_skips_restart [OF h, of some_ext "''next.config.js''" some_config "[]"]
    by (simp add: manual_restart_state_def module_loaded_def)
qed

lemma exited_fold_kill: "exited (fold (child_kill sg) cs st) = exited st"
  by (induction cs arbitrary: st) (simp_all add: child_kill_def child_upd_def emit_effect_def)

lemma effects_fold_kill:
  "effects (fold (child_kill sg) cs st) = effects st @ map (\<lambda>c. ChildKill c sg) cs"
  by (induction cs arbitrary: st) (simp_all add: child_kill_def child_upd_def emit_effect_def)

lemma exited_reallyExit: "exited (reallyExit c st) = Some c"
  by (simp add: reallyExit_def)

lemma exits_zero_reallyExit: "exits_zero reallyExit"
  by (simp add: exits_zero_def reallyExit_def)

lemma cleanup_zero:
  assumes "exits_zero exit" and "exited st = None"
  shows "exited (cleanup exit w st) = Some 0"
  using assms by (simp add: cleanup_def exits_zero_def exited_fold_kill)

lemma exited_stop_telemetry: "exited (stop_telemetry x c st) = exited st"
  by (simp add: stop_telemetry_def record_and_flush_def emit_effect_def Let_def
        split: sum.splits prod.splits option.splits)

lemma exited_upload: "upload_trace_step x st = Inr st1 \<Longrightarrow> exited st1 = exited st"
  by (auto simp: upload_trace_step_def emit_effect_def split: option.splits if_splits)

lemma stop_finish_zero:
  assumes "exits_zero exit" and "exited st = None"
  shows "zero_or_alive (stop_finish exit x st)"
proof (cases "upload_trace_step x st")
  case (Inl e)
  then show ?thesis using assms(2) by (simp add: stop_finish_def reject_def zero_or_alive_def)
next
  case (Inr st1)
  have "exited (restore_cursor st1) = None"
    using exited_upload [OF Inr] assms(2) by (simp add: restore_cursor_def emit_effect_def)
  then have "exited (exit 0 (restore_cursor st1)) = Some 0"
    using assms(1) by (simp add: exits_zero_def)
  then show ?thesis using Inr by (simp add: stop_finish_def zero_or_alive_def)
qed

lemma handleSessionStop_zero:
  assumes "exits_zero exit" and "exited st = None"
  shows "zero_or_alive (handleSessionStop exit x st)"
proof -
  have a: "zero_or_alive (stop_finish exit x (st\<lparr>sessionStopHandled := True\<rparr>))"
    by (rule stop_finish_zero [OF assms(1)]) (simp add: assms(2))
  have b: "zero_or_alive (stop_finish exit x (stop_telemetry x c (st\<lparr>sessionStopHandled := True\<rparr>)))" for c
    by (rule stop_finish_zero [OF assms(1)]) (simp add: assms(2) exited_stop_telemetry)
  show ?thesis
    using a b assms(2)
    by (simp add: handleSessionStop_def Let_def zero_or_alive_def suspend_def emit_effect_def
          split: option.splits)
qed

lemma call_listener_zero:
  assumes "exits_zero exit" and "exited st = None"
  shows "zero_or_alive (call_listener exit x l st)"
  using handleSessionStop_zero [OF assms] cleanup_zero [OF assms]
  by (cases l) (simp_all add: call_listener_def zero_or_alive_def)

lemma fold_dead:
  "exited st = Some c \<Longrightarrow> fold (\<lambda>l s. if exited s = None then f l s else s) ls st = st"
  by (induction ls) simp_all

lemma dispatch_dead: "exited st = Some c \<Longrightarrow> dispatch exit x ls st = st"
  by (simp add: dispatch_def fold_dead)

lemma dispatch_zero:
  assumes "exits_zero exit" and "zero_or_alive st"
  shows "zero_or_alive (dispatch exit x ls st)"
  using assms(2)
proof (induction ls arbitrary: st)
  case Nil
  then show ?case by (simp add: dispatch_def)
next
  case (Cons l ls)
  show ?case
  proof (cases "exited st")
    case None
    have "dispatch exit x (l # ls) st = dispatch exit x ls (call_listener exit x l st)"
      using None by (simp add: dispatch_def)
    then show ?thesis using Cons.IH [OF call_listener_zero [OF assms(1) None]] by simp
  next
    case (Some c)
    then show ?thesis using Cons.prems by (simp add: dispatch_dead)
  qed
qed

lemma exited_process_exit: "exited (process_exit x c st) \<noteq> None"
  by (simp add: process_exit_def Let_def reallyExit_def)

lemma exits_zero_process_exit: "exits_zero (process_exit x)"
  unfolding exits_zero_def
proof (intro allI impI)
  fix s :: pstate
  assume "exited s = None"
  then have "zero_or_alive (dispatch reallyExit x (listeners_of EvExit s) s)"
    using dispatch_zero [OF exits_zero_reallyExit] by (simp add: zero_or_alive_def)
  then show "exited (process_exit x 0 s) = Some 0"
    by (auto simp: process_exit_def Let_def reallyExit_def zero_or_alive_def)
qed

text \<open>A listener that is called while the process lives and that is a cleanup ends it with 0.\<close>

lemma dispatch_cleanup_zero:
  assumes "Cleanup w \<in> set ls" and "exited st = None"
  shows "exited (dispatch (process_exit x) x ls st) = Some 0"
  using assms
proof (induction ls arbitrary: st)
  case Nil
  then show ?case by simp
next
  case (Cons l ls)
  let ?s1 = "call_listener (process_exit x) x l st"
  have d: "dispatch (process_exit x) x (l # ls) st = dispatch (process_exit x) x ls ?s1"
    using Cons.prems(2) by (simp add: dispatch_def)
  have z1: "zero_or_alive ?s1"
    using call_listener_zero [OF exits_zero_process_exit Cons.prems(2)] .
  show ?case
  proof (cases "exited ?s1")
    case (Some c)
    then have "c = 0" using z1 by (simp add: zero_or_alive_def)
    then show ?thesis using d Some by (simp add: dispatch_dead)
  next
    case None
    have "l \<noteq> Cleanup w"
    proof
      assume "l = Cleanup w"
      then have "exited ?s1 = Some 0"
        using cleanup_zero [OF exits_zero_process_exit Cons.prems(2)] by (simp add: call_listener_def)
      then show False using None by simp
    qed
    then have "Cleanup w \<in> set ls" using Cons.prems(1) by simp
    then show ?thesis using d Cons.IH [OF _ None] by simp
  qed
qed

lemma exited_drain_rejections: "exited st = Some c \<Longrightarrow> exited (drain_rejections x st) = Some c"
  by (simp add: drain_rejections_def fold_dead)

section \<open>Lists of children\<close>

lemma map_filter_pool_of:
  "List.map_filter id (pool_of n shape) = [n ..< n + length (filter id shape)]"
proof (induction shape arbitrary: n)
  case Nil
  show ?case by (simp add: List.map_filter_simps)
next
  case (Cons b bs)
  show ?case
  proof (cases b)
    case True
    have "[n ..< Suc (n + k)] = n # [Suc n ..< Suc (n + k)]" for k
      by (simp add: upt_conv_Cons del: upt_Suc)
    then show ?thesis
      using True Cons [of "Suc n"] by (simp add: List.map_filter_simps del: upt_Suc)
  next
    case False
    then show ?thesis using Cons [of n] by (simp add: List.map_filter_simps)
  qed
qed

lemma count_list_upt: "count_list [a ..< b] c = (if a \<le> c \<and> c < b then 1 else 0)"
  by (induction b) auto

lemma length_children_fold_on_exit:
  "length (children (fold (child_on_exit l) cs st)) = length (children st)"
  by (induction cs arbitrary: st) (simp_all add: child_on_exit_def child_upd_def)

lemma listeners_fold_on_exit:
  "c < length (children st) \<Longrightarrow>
   c_exitListeners (children (fold (child_on_exit l) cs st) ! c) =
     c_exitListeners (children st ! c) @ replicate (count_list cs c) l"
proof (induction cs arbitrary: st)
  case Nil
  show ?case by simp
next
  case (Cons a cs)
  have len: "c < length (children (child_on_exit l a st))"
    using Cons.prems by (simp add: child_on_exit_def child_upd_def)
  have one: "c_exitListeners (children (child_on_exit l a st) ! c) =
             c_exitListeners (children st ! c) @ (if a = c then [l] else [])"
    using Cons.prems by (simp add: child_on_exit_def child_upd_def nth_list_update)
  show ?case using Cons.IH [OF len] one by (simp add: replicate_app_Cons_same)
qed

lemma createRouterWorker_children:
  "children (snd (createRouterWorker fullConfig shape st)) =
     children (fold (child_on_exit (Cleanup (length (workers st))))
                 [length (children st) ..< length (children st) + length (filter id shape)]
                 (st\<lparr>workers := workers st @ [new_worker fullConfig (length (children st)) shape],
                     children := children st @ replicate (length (filter id shape)) new_child,
                     effects := effects st @ [WorkerNew (length (workers st))]\<rparr>))"
  unfolding createRouterWorker_def Let_def
  by (simp add: process_on_def emit_effect_def pool_children_def map_filter_pool_of new_worker_def)

lemma createRouterWorker_pool:
  "pool_children (length (workers st)) (snd (createRouterWorker fullConfig shape st)) =
     [length (children st) ..< length (children st) + length (filter id shape)]"
  by (subst createRouterWorker_shape) (simp add: pool_children_def new_worker_def map_filter_pool_of)

lemma createRouterWorker_registers:
  assumes "c \<in> set (pool_children (fst (createRouterWorker fullConfig shape st))
                       (snd (createRouterWorker fullConfig shape st)))"
  shows "c_exitListeners (children (snd (createRouterWorker fullConfig shape st)) ! c) =
           [Cleanup (fst (createRouterWorker fullConfig shape st))]"
proof -
  let ?n = "length (children st)" and ?k = "length (filter id shape)"
  have c: "?n \<le> c" "c < ?n + ?k"
    using assms by (simp_all add: createRouterWorker_fst createRouterWorker_pool)
  let ?s = "st\<lparr>workers := workers st @ [new_worker fullConfig (length (children st)) shape],
                children := children st @ replicate ?k new_child,
                effects := effects st @ [WorkerNew (length (workers st))]\<rparr>"
  have len: "c < length (children ?s)" using c by simp
  have "children ?s ! c = new_child" using c by (simp add: nth_append)
  then show ?thesis
    using listeners_fold_on_exit [OF len, of "Cleanup (length (workers st))" "[?n ..< ?n + ?k]"] c
    by (simp add: createRouterWorker_children createRouterWorker_fst count_list_upt new_child_def)
qed

section \<open>The exit of a child ends the parent\<close>

lemma child_exit_step:
  assumes "exited st = None" and "c < length (children st)" and "\<not> c_exited (children st ! c)"
    and "Cleanup w \<in> set (c_exitListeners (children st ! c))"
  shows "exited (step x (ChildExit c) st) = Some 0"
proof -
  let ?s1 = "child_upd c (\<lambda>ch. ch\<lparr>c_exited := True\<rparr>) st"
  have "exited ?s1 = None" using assms(1) by (simp add: child_upd_def)
  then have "exited (dispatch (process_exit x) x (c_exitListeners (children st ! c)) ?s1) = Some 0"
    using dispatch_cleanup_zero [OF assms(4)] by simp
  then have "exited (react x (ChildExit c) st) = Some 0" using assms(2,3) by simp
  then show ?thesis using assms(1) by (simp add: step_def exited_drain_rejections)
qed

text \<open>
  C4, as the code has it. \<^verbatim>\<open>createRouterWorker\<close> creates the worker with
  \<^verbatim>\<open>maxRetries: 8\<close> and registers its \<^verbatim>\<open>cleanup\<close> as the exit listener of
  every child of the pool; and when a child on which a cleanup is registered
  exits, the turn of the event loop that handles the exit ends the parent process.
  The status is 0, the argument of \<^verbatim>\<open>process.exit\<close> in \<^verbatim>\<open>cleanup\<close>, not a
  non-zero one.
\<close>

theorem child_exit_ends_parent_with_zero:
  "w_maxRetries (workers (snd (createRouterWorker fullConfig shape st)) !
                   fst (createRouterWorker fullConfig shape st)) = 8 \<and>
   (\<forall>c \<in> set (pool_children (fst (createRouterWorker fullConfig shape st))
                 (snd (createRouterWorker fullConfig shape st))).
      c_exitListeners (children (snd (createRouterWorker fullConfig shape st)) ! c) =
        [Cleanup (fst (createRouterWorker fullConfig shape st))]) \<and>
   (exited s = None \<and> c < length (children s) \<and> \<not> c_exited (children s ! c) \<and>
    Cleanup w \<in> set (c_exitListeners (children s ! c)) \<longrightarrow>
      exited (step x (ChildExit c) s) = Some 0)"
proof (intro conjI ballI impI)
  show "w_maxRetries (workers (snd (createRouterWorker fullConfig shape st)) !
                   fst (createRouterWorker fullConfig shape st)) = 8"
    by (subst createRouterWorker_shape) (simp add: createRouterWorker_fst new_worker_def)
  show "c_exitListeners (children (snd (createRouterWorker fullConfig shape st)) ! c) =
        [Cleanup (fst (createRouterWorker fullConfig shape st))]"
    if "c \<in> set (pool_children (fst (createRouterWorker fullConfig shape st))
                 (snd (createRouterWorker fullConfig shape st)))" for c
    using createRouterWorker_registers [OF that] .
  show "exited (step x (ChildExit c) s) = Some 0"
    if "exited s = None \<and> c < length (children s) \<and> \<not> c_exited (children s ! c) \<and>
        Cleanup w \<in> set (c_exitListeners (children s ! c))"
    using that child_exit_step by blast
qed

theorem child_exit_ends_parent_with_zero_witness:
  "exited (some_session started_events) = None \<and>
   0 < length (children (some_session started_events)) \<and>
   \<not> c_exited (children (some_session started_events) ! 0) \<and>
   Cleanup 0 \<in> set (c_exitListeners (children (some_session started_events) ! 0)) \<and>
   exited (step some_ext (ChildExit 0) (some_session started_events)) = Some 0"
proof -
  have h: "exited (some_session started_events) = None \<and>
     0 < length (children (some_session started_events)) \<and>
     \<not> c_exited (children (some_session started_events) ! 0) \<and>
     Cleanup 0 \<in> set (c_exitListeners (children (some_session started_events) ! 0))"
    by code_simp
  show ?thesis
    using h child_exit_ends_parent_with_zero [of some_config "[]" "some_session []"
        "some_session started_events" 0 0 some_ext]
    by blast
qed

text \<open>
  C4 as the claim states it fails: the worker is serving, its child exits, and the
  parent process exits with status 0.
\<close>

theorem child_exit_status_counterexample:
  "exited (some_session (started_events @ [ChildExit 0])) = Some 0"
  by code_simp

section \<open>A failed start\<close>

text \<open>
  C6 on the code. \<^verbatim>\<open>startServer\<close> rejects on the first start: the error is
  printed and \<^verbatim>\<open>process.exit(1)\<close> is called, but the \<^verbatim>\<open>'exit'\<close> listener that
  \<^verbatim>\<open>createRouterWorker\<close> has registered is the \<^verbatim>\<open>cleanup\<close> that calls
  \<^verbatim>\<open>process.exit(0)\<close>, and the process ends with status 0.
\<close>

theorem failed_start_exits_with_zero:
  "exited (some_session
             [DirChecked True, DevConfigLoaded None,
              WorkerCreated False (Some some_config) (Inr [True]),
              ServerStarted False 0 (Some ''EADDRINUSE'')]) = Some 0 \<and>
   ConsoleError ''EADDRINUSE'' \<in>
     set (effects (some_session
             [DirChecked True, DevConfigLoaded None,
              WorkerCreated False (Some some_config) (Inr [True]),
              ServerStarted False 0 (Some ''EADDRINUSE'')]))"
  by code_simp

section \<open>What the stop handler swallows\<close>

lemma stdout_of_filter:
  "concat (map stdout_bytes es) = concat (map stdout_bytes (filter is_stdout_write es))"
proof (induction es)
  case Nil
  show ?case by simp
next
  case (Cons e es)
  then show ?case by (cases e) simp_all
qed

lemma stdout_of_calm: "calm st st' \<Longrightarrow> stdout_of st' = stdout_of st"
proof -
  assume "calm st st'"
  then have "filter is_stdout_write (effects st') = filter is_stdout_write (effects st)"
    by (simp add: view_defs)
  then show ?thesis
    using stdout_of_filter [of "effects st'"] stdout_of_filter [of "effects st"]
    by (simp add: stdout_of_def)
qed

lemma stdout_of_stop_telemetry: "stdout_of (stop_telemetry x c st) = stdout_of st"
  by (simp add: stop_telemetry_def record_and_flush_def emit_effect_def Let_def stdout_of_def
        split: sum.splits prod.splits option.splits)

lemma upload_trace_step_ok:
  assumes "truthy (traceUploadUrl st) \<longrightarrow> uploadTrace_throws x = None \<and> config st \<noteq> None"
  shows "\<exists>st1. upload_trace_step x st = Inr st1 \<and> stdout_of st1 = stdout_of st \<and>
               exited st1 = exited st \<and> sessionStopHandled st1 = sessionStopHandled st"
  using assms
  by (auto simp: upload_trace_step_def truthy_def emit_effect_def stdout_of_def split: option.splits)

lemma stop_finish_finished:
  assumes "truthy (traceUploadUrl st) \<longrightarrow> uploadTrace_throws x = None \<and> config st \<noteq> None"
    and "exited st = None" and "sessionStopHandled st"
  shows "finished st (stop_finish (process_exit x) x st)"
proof -
  obtain st1 where u: "upload_trace_step x st = Inr st1" "stdout_of st1 = stdout_of st"
      "exited st1 = exited st" "sessionStopHandled st1 = sessionStopHandled st"
    using upload_trace_step_ok [OF assms(1)] by blast
  let ?s2 = "restore_cursor st1"
  have o: "stdout_of ?s2 = stdout_of st @ cursor_show @ newline"
    using u(2) by (simp add: restore_cursor_def emit_effect_def stdout_of_def)
  have a: "exited ?s2 = None" and f: "sessionStopHandled ?s2"
    using u(3,4) assms(2,3) by (simp_all add: restore_cursor_def emit_effect_def)
  have "exited (process_exit x 0 ?s2) = Some 0"
    using exits_zero_process_exit a by (simp add: exits_zero_def)
  moreover have "stdout_of (process_exit x 0 ?s2) = stdout_of ?s2"
    using stdout_of_calm [OF good_flagged [OF good_process_exit f]] .
  ultimately show ?thesis using u(1) o by (simp add: stop_finish_def finished_def)
qed

lemma handleSessionStop_finished:
  assumes "exited st = None" and "\<not> sessionStopHandled st" and "config st \<noteq> None"
    and "truthy (traceUploadUrl st) \<longrightarrow> uploadTrace_throws x = None"
  shows "finished st (handleSessionStop (process_exit x) x st)"
proof -
  obtain c where c: "config st = Some c" using assms(3) by blast
  let ?s1 = "st\<lparr>sessionStopHandled := True\<rparr>"
  have a: "finished ?s1 (stop_finish (process_exit x) x ?s1)"
    by (rule stop_finish_finished) (simp_all add: assms)
  have b: "finished (stop_telemetry x c ?s1) (stop_finish (process_exit x) x (stop_telemetry x c ?s1))"
    by (rule stop_finish_finished)
       (simp_all add: assms exited_stop_telemetry stop_telemetry_flag kept_fields [OF kept_stop_telemetry])
  have s1: "stdout_of ?s1 = stdout_of st" by (simp add: stdout_of_def)
  show ?thesis
    using assms(2) c a b s1
    by (simp add: handleSessionStop_def Let_def finished_def stdout_of_stop_telemetry
          split: option.splits)
qed

lemma stop_config_loaded_finished:
  assumes "exited st = None" and "sessionStopHandled st"
    and "truthy (traceUploadUrl st) \<longrightarrow>
           uploadTrace_throws x = None \<and> (oc = None \<or> config st \<noteq> None)"
  shows "finished st (stop_config_loaded (process_exit x) x oc st)"
proof (cases oc)
  case (Some e)
  have "finished st (stop_finish (process_exit x) x st)"
    by (rule stop_finish_finished) (use assms Some in simp_all)
  then show ?thesis using Some by (simp add: stop_config_loaded_def)
next
  case None
  let ?s1 = "st\<lparr>config := Some (diskConfig st)\<rparr>"
  let ?s2 = "stop_telemetry x (diskConfig st) ?s1"
  have "finished ?s2 (stop_finish (process_exit x) x ?s2)"
    by (rule stop_finish_finished)
       (simp_all add: assms exited_stop_telemetry stop_telemetry_flag kept_fields [OF kept_stop_telemetry])
  moreover have "stdout_of ?s2 = stdout_of st"
    by (simp add: stdout_of_stop_telemetry) (simp add: stdout_of_def)
  ultimately show ?thesis using None by (simp add: stop_config_loaded_def Let_def finished_def)
qed

lemma finished_drain:
  assumes "finished st s1"
  shows "finished st (drain_rejections x s1)"
proof -
  have e: "exited s1 = Some 0" using assms by (simp add: finished_def)
  have "exited (s1\<lparr>rejections := []\<rparr>) = Some 0" using e by simp
  then have "drain_rejections x s1 = s1\<lparr>rejections := []\<rparr>"
    by (simp add: drain_rejections_def fold_dead)
  then show ?thesis using assms by (simp add: finished_def stdout_of_def)
qed

lemma finished_dispatch_rest:
  assumes "finished st s1"
  shows "finished st (dispatch exit x ls s1)"
proof -
  have "exited s1 = Some 0" using assms by (simp add: finished_def)
  then show ?thesis using assms by (simp add: dispatch_dead)
qed

text \<open>
  C2, as the code has it. Whatever is thrown inside the \<^verbatim>\<open>try\<close> (by
  \<^verbatim>\<open>require\<close>, by the fallback \<^verbatim>\<open>loadConfig\<close>, by the telemetry recorder, by
  the detection of the routing conventions, by the record or the flush) is
  swallowed; the trace upload is outside the \<^verbatim>\<open>try\<close>. First part: a signal
  whose first listener is \<^verbatim>\<open>handleSessionStop\<close>, delivered to a live process where
  the flag is not set and \<^verbatim>\<open>config\<close> is set, ends with the cursor sequence and a
  newline on standard output and with exit status 0, when no trace URL is
  configured or \<^verbatim>\<open>uploadTrace\<close> raises nothing. Second part: an invocation that
  found no \<^verbatim>\<open>config\<close> is suspended at the fallback \<^verbatim>\<open>loadConfig\<close>; when that
  settles, with any outcome, in a process that is still alive, the continuation ends
  the same way, when no trace URL is configured, or \<^verbatim>\<open>uploadTrace\<close> raises nothing
  and a configuration is there. Nothing is said of a suspended invocation whose
  process exits before the load settles.
\<close>

theorem stop_handler_swallows_try_block:
  assumes "exited st = None"
    and "truthy (traceUploadUrl st) \<longrightarrow> uploadTrace_throws x = None"
  shows "(\<not> sessionStopHandled st \<and> config st \<noteq> None \<and>
          listeners_of (signal_event sg) st = HandleSessionStop # ls \<longrightarrow>
            finished st (step x (Signal sg) st)) \<and>
         (sessionStopHandled st \<and> StopAwaitLoadConfig \<in> set (tasks st) \<and>
          (truthy (traceUploadUrl st) \<longrightarrow> oc = None \<or> config st \<noteq> None) \<longrightarrow>
            finished st (step x (StopConfigLoaded oc) st))"
proof (intro conjI impI)
  assume h: "\<not> sessionStopHandled st \<and> config st \<noteq> None \<and>
             listeners_of (signal_event sg) st = HandleSessionStop # ls"
  let ?s1 = "handleSessionStop (process_exit x) x st"
  have f: "finished st ?s1"
    by (rule handleSessionStop_finished) (use h assms in simp_all)
  have "dispatch (process_exit x) x (HandleSessionStop # ls) st = dispatch (process_exit x) x ls ?s1"
    using assms(1) by (simp add: dispatch_def call_listener_def)
  then have "react x (Signal sg) st = dispatch (process_exit x) x ls ?s1"
    using h by simp
  then have "finished st (react x (Signal sg) st)"
    using finished_dispatch_rest [OF f] by simp
  then show "finished st (step x (Signal sg) st)"
    using assms(1) finished_drain by (simp add: step_def)
next
  assume h: "sessionStopHandled st \<and> StopAwaitLoadConfig \<in> set (tasks st) \<and>
             (truthy (traceUploadUrl st) \<longrightarrow> oc = None \<or> config st \<noteq> None)"
  let ?s0 = "st\<lparr>tasks := remove1 StopAwaitLoadConfig (tasks st)\<rparr>"
  have "finished ?s0 (stop_config_loaded (process_exit x) x oc ?s0)"
    by (rule stop_config_loaded_finished) (use h assms in auto)
  moreover have "stdout_of ?s0 = stdout_of st" by (simp add: stdout_of_def)
  ultimately have "finished st (react x (StopConfigLoaded oc) st)"
    using h by (simp add: resume_def finished_def)
  then show "finished st (step x (StopConfigLoaded oc) st)"
    using assms(1) finished_drain by (simp add: step_def)
qed

theorem stop_handler_swallows_try_block_witness:
  "exited loaded_state = None \<and> \<not> truthy (traceUploadUrl loaded_state) \<and>
   \<not> sessionStopHandled loaded_state \<and> config loaded_state \<noteq> None \<and>
   listeners_of (signal_event Sigint) loaded_state = [HandleSessionStop] \<and>
   finished loaded_state (step telemetry_fails (Signal Sigint) loaded_state) \<and>
   exited suspended_state = None \<and> \<not> truthy (traceUploadUrl suspended_state) \<and>
   sessionStopHandled suspended_state \<and> StopAwaitLoadConfig \<in> set (tasks suspended_state) \<and>
   finished suspended_state (step telemetry_fails (StopConfigLoaded (Some ''ENOENT'')) suspended_state)"
proof -
  have h: "exited loaded_state = None"
    "truthy (traceUploadUrl loaded_state) \<longrightarrow> uploadTrace_throws telemetry_fails = None"
    by (simp_all add: telemetry_fails_def some_ext_def loaded_state_def module_loaded_def)
  have g: "\<not> sessionStopHandled loaded_state" "config loaded_state \<noteq> None"
    "listeners_of (signal_event Sigint) loaded_state = [HandleSessionStop]"
    "\<not> truthy (traceUploadUrl loaded_state)"
    by (simp_all add: loaded_state_def module_loaded_def listeners_of_def truthy_def)
  have k: "exited suspended_state = None"
    "truthy (traceUploadUrl suspended_state) \<longrightarrow> uploadTrace_throws telemetry_fails = None"
    by (simp_all add: telemetry_fails_def some_ext_def suspended_state_def module_loaded_def)
  have m: "sessionStopHandled suspended_state" "StopAwaitLoadConfig \<in> set (tasks suspended_state)"
    "\<not> truthy (traceUploadUrl suspended_state)"
    by (simp_all add: suspended_state_def module_loaded_def truthy_def)
  show ?thesis
    using h g k m
      stop_handler_swallows_try_block [OF h, of Sigint "[]" None]
      stop_handler_swallows_try_block [OF k, of Sigint "[]" "Some ''ENOENT''"]
    by simp
qed

text \<open>
  C2 as the claim states it fails twice. With a trace URL configured and
  \<^verbatim>\<open>uploadTrace\<close> throwing, SIGINT leaves standard output empty and the process
  ends with status 1, through the rejection that nothing handles. And with nothing
  thrown at all: SIGINT arrives before \<^verbatim>\<open>config\<close> is loaded, the handler
  suspends at the fallback \<^verbatim>\<open>loadConfig\<close>, the project directory turns out to be
  missing, and the process exits with status 1 while the handler is still pending
  and standard output is empty.
\<close>

theorem trace_upload_exception_counterexample:
  "stdout_of (session upload_fails trace_args 0 Map.empty some_config []
                [DirChecked True, DevConfigLoaded None, Signal Sigint]) = [] \<and>
   exited (session upload_fails trace_args 0 Map.empty some_config []
                [DirChecked True, DevConfigLoaded None, Signal Sigint]) = Some 1 \<and>
   StopAwaitLoadConfig \<in> set (tasks (some_session [Signal Sigint, DirChecked False])) \<and>
   stdout_of (some_session [Signal Sigint, DirChecked False]) = [] \<and>
   exited (some_session [Signal Sigint, DirChecked False]) = Some 1"
  by code_simp

lemma K_kept: "kept st st' \<Longrightarrow> K x a p C st \<Longrightarrow> K x a p C st'"
proof -
  assume k: "kept st st'" and i: "K x a p C st"
  have t: "ptasks st' = ptasks st" and l: "plog st' = plog st"
    using k by (simp_all add: kept_def ptasks_def plog_def)
  show ?thesis
    using i unfolding K_def checked_def set_up_def t l
    by (simp add: kept_fields [OF k])
qed

lemma K_mono: "K x a p C st \<Longrightarrow> C \<subseteq> C' \<Longrightarrow> K x a p C' st"
proof -
  assume i: "K x a p C st" and s: "C \<subseteq> C'"
  have "payload_ok x a p C e \<Longrightarrow> payload_ok x a p C' e" for e
    using s by (cases e) (auto split: if_splits)
  then show ?thesis using i unfolding K_def by blast
qed

lemma ptasks_take: "t \<noteq> StopAwaitLoadConfig \<Longrightarrow>
    ptasks (st\<lparr>tasks := remove1 t (tasks st)\<rparr>) = remove1 t (ptasks st)"
  by (simp add: ptasks_def filter_remove1)

lemma K_take:
  assumes "K x a p C st"
  shows "K x a p C (st\<lparr>tasks := remove1 t (tasks st)\<rparr>)"
proof -
  let ?s = "st\<lparr>tasks := remove1 t (tasks st)\<rparr>"
  have s: "u \<in> set (ptasks ?s) \<Longrightarrow> u \<in> set (ptasks st)" for u
    using set_remove1_subset [of t "tasks st"] by (auto simp: ptasks_def)
  have l: "plog ?s = plog st" by (simp add: plog_def)
  have c: "checked ?s \<Longrightarrow> checked st"
    using s by (auto simp: checked_def)
  have u: "set_up ?s \<Longrightarrow> set_up st"
    using s by (auto simp: set_up_def)
  have 1: "penv st ''PORT'' = p"
    and 2: "DevAwaitFileExists \<in> set (ptasks st) \<or> checked st \<longrightarrow> nd_args st = a"
    and 3: "checked st \<longrightarrow> nd_allowRetry st = retry_allowed a p \<and> nd_host st = arg_hostname a"
    and 4: "set_up st \<longrightarrow>
        so_allowRetry (devServerOptions st) = retry_allowed a p \<and>
        so_selfSignedCertificate (devServerOptions st) = None"
    and 5: "\<forall>t \<in> set (ptasks st). is_run_task t \<longrightarrow> watching st"
    and 6: "\<forall>t \<in> set (ptasks st). is_cert_task t \<longrightarrow>
        self_signed a \<and> CreateSelfSignedCertificate (arg_hostname a) \<in> set (plog st)"
    and 7: "\<forall>e \<in> set (plog st). payload_ok x a p C e"
    and 8: "\<forall>e \<in> set (plog st). is_start_call e \<longrightarrow> self_signed a \<longrightarrow>
        CreateSelfSignedCertificate (arg_hostname a) \<in> set (plog st)"
    using assms by (simp_all add: K_def)
  show ?thesis
    unfolding K_def l
  proof (intro conjI)
    show "penv ?s ''PORT'' = p" using 1 by simp
    show "DevAwaitFileExists \<in> set (ptasks ?s) \<or> checked ?s \<longrightarrow> nd_args ?s = a"
      using 2 s c by auto
    show "checked ?s \<longrightarrow> nd_allowRetry ?s = retry_allowed a p \<and> nd_host ?s = arg_hostname a"
      using 3 c by auto
    show "set_up ?s \<longrightarrow>
        so_allowRetry (devServerOptions ?s) = retry_allowed a p \<and>
        so_selfSignedCertificate (devServerOptions ?s) = None"
      using 4 u by auto
    show "\<forall>t \<in> set (ptasks ?s). is_run_task t \<longrightarrow> watching ?s"
      using 5 s by auto
    show "\<forall>t \<in> set (ptasks ?s). is_cert_task t \<longrightarrow>
        self_signed a \<and> CreateSelfSignedCertificate (arg_hostname a) \<in> set (plog st)"
      using 6 s by blast
    show "\<forall>e \<in> set (plog st). payload_ok x a p C e" using 7 .
    show "\<forall>e \<in> set (plog st). is_start_call e \<longrightarrow> self_signed a \<longrightarrow>
        CreateSelfSignedCertificate (arg_hostname a) \<in> set (plog st)" using 8 .
  qed
qed

lemmas K_defs = K_def checked_def set_up_def

lemma ptasks_simps [simp]:
  "t \<noteq> StopAwaitLoadConfig \<Longrightarrow> ptasks (suspend t st) = ptasks st @ [t]"
  "ptasks (emit_effect e st) = ptasks st"
  "ptasks (st\<lparr>nd_args := v1\<rparr>) = ptasks st"
  "ptasks (st\<lparr>dir := v2\<rparr>) = ptasks st"
  "ptasks (st\<lparr>nd_port := v3\<rparr>) = ptasks st"
  "ptasks (st\<lparr>nd_allowRetry := v4\<rparr>) = ptasks st"
  "ptasks (st\<lparr>nd_host := v5\<rparr>) = ptasks st"
  "ptasks (st\<lparr>config := v6\<rparr>) = ptasks st"
  "ptasks (st\<lparr>nd_expFeatureInfo := v7\<rparr>) = ptasks st"
  "ptasks (st\<lparr>traceUploadUrl := v8\<rparr>) = ptasks st"
  "ptasks (st\<lparr>devServerOptions := v9\<rparr>) = ptasks st"
  "ptasks (st\<lparr>penv := v10\<rparr>) = ptasks st"
  "ptasks (st\<lparr>watching := v11\<rparr>) = ptasks st"
  "ptasks (st\<lparr>runningServer := v12\<rparr>) = ptasks st"
  "ptasks (st\<lparr>workers := v13\<rparr>) = ptasks st"
  "ptasks (st\<lparr>children := v14\<rparr>) = ptasks st"
  "ptasks (st\<lparr>plisteners := v15\<rparr>) = ptasks st"
  "ptasks (st\<lparr>effects := v16\<rparr>) = ptasks st"
  "ptasks (st\<lparr>diskConfig := v17\<rparr>) = ptasks st"
  "ptasks (st\<lparr>diskFeatures := v18\<rparr>) = ptasks st"
  "ptasks (worker_upd w f st) = ptasks st"
  by (simp_all add: ptasks_def suspend_def emit_effect_def worker_upd_def)

lemma plog_simps [simp]:
  "plog (suspend t st) = plog st"
  "listener_effect e \<Longrightarrow> plog (emit_effect e st) = plog st"
  "\<not> listener_effect e \<Longrightarrow> plog (emit_effect e st) = plog st @ [e]"
  "plog (st\<lparr>nd_args := v1\<rparr>) = plog st"
  "plog (st\<lparr>dir := v2\<rparr>) = plog st"
  "plog (st\<lparr>nd_port := v3\<rparr>) = plog st"
  "plog (st\<lparr>nd_allowRetry := v4\<rparr>) = plog st"
  "plog (st\<lparr>nd_host := v5\<rparr>) = plog st"
  "plog (st\<lparr>config := v6\<rparr>) = plog st"
  "plog (st\<lparr>nd_expFeatureInfo := v7\<rparr>) = plog st"
  "plog (st\<lparr>traceUploadUrl := v8\<rparr>) = plog st"
  "plog (st\<lparr>devServerOptions := v9\<rparr>) = plog st"
  "plog (st\<lparr>penv := v10\<rparr>) = plog st"
  "plog (st\<lparr>watching := v11\<rparr>) = plog st"
  "plog (st\<lparr>runningServer := v12\<rparr>) = plog st"
  "plog (st\<lparr>workers := v13\<rparr>) = plog st"
  "plog (st\<lparr>children := v14\<rparr>) = plog st"
  "plog (st\<lparr>plisteners := v15\<rparr>) = plog st"
  "plog (st\<lparr>tasks := v16\<rparr>) = plog st"
  "plog (st\<lparr>diskConfig := v17\<rparr>) = plog st"
  "plog (st\<lparr>diskFeatures := v18\<rparr>) = plog st"
  "plog (worker_upd w f st) = plog st"
  by (simp_all add: plog_def suspend_def emit_effect_def worker_upd_def)

lemma field_simps_K [simp]:
  "watching (suspend t st) = watching st" "watching (emit_effect e st) = watching st"
  "nd_args (suspend t st) = nd_args st" "nd_args (emit_effect e st) = nd_args st"
  "penv (suspend t st) = penv st" "penv (emit_effect e st) = penv st"
  "nd_allowRetry (suspend t st) = nd_allowRetry st" "nd_allowRetry (emit_effect e st) = nd_allowRetry st"
  "nd_host (suspend t st) = nd_host st" "nd_host (emit_effect e st) = nd_host st"
  "devServerOptions (suspend t st) = devServerOptions st"
  "devServerOptions (emit_effect e st) = devServerOptions st"
  "watching (worker_upd w f st) = watching st" "nd_args (worker_upd w f st) = nd_args st"
  "penv (worker_upd w f st) = penv st" "nd_allowRetry (worker_upd w f st) = nd_allowRetry st"
  "nd_host (worker_upd w f st) = nd_host st"
  "devServerOptions (worker_upd w f st) = devServerOptions st"
  by (simp_all add: suspend_def emit_effect_def worker_upd_def)

lemma K_run_failed: "K x a p C st \<Longrightarrow> K x a p C (run_failed x e st)"
proof -
  have "kept st (run_failed x e st)"
    unfolding run_failed_def using kept_trans [OF kept_emit kept_process_exit] by simp
  then show "K x a p C st \<Longrightarrow> K x a p C (run_failed x e st)" by (rule K_kept)
qed

lemma K_module_loaded: "K x a (env ''PORT'') C (module_loaded now env disk feats)"
  by (simp add: K_defs ptasks_def plog_def module_loaded_def)

lemma K_nextDev: "K x a (env ''PORT'') C (nextDev x a (module_loaded now env disk feats))"
proof (cases "arg_help a = Some True")
  case True
  let ?s = "emit_effect (ConsoleLog (helpText x)) (module_loaded now env disk feats)"
  have "K x a (env ''PORT'') C ?s"
    by (simp add: K_defs ptasks_def plog_def module_loaded_def emit_effect_def)
  then have "K x a (env ''PORT'') C (process_exit x 0 ?s)"
    using K_kept [OF kept_process_exit] by blast
  then show ?thesis using True by (simp add: nextDev_def)
next
  case False
  then show ?thesis by (simp add: nextDev_def K_defs ptasks_def plog_def module_loaded_def suspend_def)
qed

lemma K_dev_dir_checked:
  assumes "K x a p C st" and "nd_args st = a"
  shows "K x a p C (dev_dir_checked x found st)"
proof (cases found)
  case False
  let ?m = "''> No such directory exists as the project root: '' @
              (case dir st of None \<Rightarrow> ''undefined'' | Some d \<Rightarrow> d)"
  have "kept st (process_exit x 1 (emit_effect (ConsoleError ?m) st))"
    using kept_trans [OF kept_emit kept_process_exit] by simp
  then show ?thesis using False K_kept [OF _ assms(1)] by (simp add: dev_dir_checked_def)
next
  case True
  then show ?thesis
    using assms unfolding K_defs
    by (simp add: dev_dir_checked_def retry_allowed_def)
qed

lemma K_dev_start:
  assumes "K x a p C st" and "nd_args st = a"
    and "nd_allowRetry st = retry_allowed a p" and "nd_host st = arg_hostname a"
    and "so_allowRetry (devServerOptions st) = retry_allowed a p"
    and "so_selfSignedCertificate (devServerOptions st) = None"
  shows "K x a p C (dev_start st)"
  using assms unfolding K_defs by (simp add: dev_start_def runDevServer_def)

lemma K_dev_config_loaded:
  assumes "K x a p C st" and "nd_args st = a"
    and "nd_allowRetry st = retry_allowed a p" and "nd_host st = arg_hostname a"
  shows "K x a p C (dev_config_loaded x oc st)"
proof (cases oc)
  case (Some e)
  then show ?thesis
    using assms(1) unfolding K_defs by (simp add: dev_config_loaded_def)
next
  case None
  show ?thesis
  proof (cases "arg_turbo a = Some True")
    case True
    then show ?thesis
      using None assms unfolding K_defs
      by (simp add: dev_config_loaded_def Let_def)
  next
    case False
    then show ?thesis
      using None assms unfolding K_defs
      by (simp add: dev_config_loaded_def Let_def dev_start_def runDevServer_def)
  qed
qed

lemma K_turbo_validated:
  assumes "K x a p C st" and "nd_args st = a"
    and "nd_allowRetry st = retry_allowed a p" and "nd_host st = arg_hostname a"
    and "so_allowRetry (devServerOptions st) = retry_allowed a p"
    and "so_selfSignedCertificate (devServerOptions st) = None"
  shows "K x a p C (turbo_validated x oc st)"
proof (cases oc)
  case (Some e)
  then show ?thesis
    using assms(1) unfolding K_defs by (simp add: turbo_validated_def)
next
  case None
  then show ?thesis using K_dev_start [OF assms] by (simp add: turbo_validated_def)
qed

lemma async_cleanup_K [simp]:
  "ptasks (async_cleanup w st) = ptasks st"
  "plog (async_cleanup w st) = plog st @ [WorkerEndCall w]"
  "watching (async_cleanup w st) = watching st"
  "nd_args (async_cleanup w st) = nd_args st"
  "penv (async_cleanup w st) = penv st"
  "nd_allowRetry (async_cleanup w st) = nd_allowRetry st"
  "nd_host (async_cleanup w st) = nd_host st"
  "devServerOptions (async_cleanup w st) = devServerOptions st"
  by (subst async_cleanup_shape, simp add: ptasks_def plog_def)+

lemma createRouterWorker_K [simp]:
  "ptasks (snd (createRouterWorker fc shape st)) = ptasks st"
  "plog (snd (createRouterWorker fc shape st)) = plog st @ [WorkerNew (length (workers st))]"
  "watching (snd (createRouterWorker fc shape st)) = watching st"
  "nd_args (snd (createRouterWorker fc shape st)) = nd_args st"
  "penv (snd (createRouterWorker fc shape st)) = penv st"
  "nd_allowRetry (snd (createRouterWorker fc shape st)) = nd_allowRetry st"
  "nd_host (snd (createRouterWorker fc shape st)) = nd_host st"
  "devServerOptions (snd (createRouterWorker fc shape st)) = devServerOptions st"
  by (subst createRouterWorker_shape, simp add: ptasks_def plog_def)+

lemma K_restart:
  assumes "K x a p C st" and "watching st"
  shows "K x a p C (restart st)"
  using assms unfolding K_defs
  by (simp add: restart_def runDevServer_def split: option.splits)

lemma K_on_config_change:
  assumes "K x a p C st" and "watching st"
  shows "K x a p C (on_config_change x filename st)"
proof (cases "truthy (penv st ''__NEXT_DISABLE_MEMORY_WATCHER'')")
  case True
  then show ?thesis using assms(1) unfolding K_defs by (simp add: on_config_change_def)
next
  case False
  let ?s1 = "emit_effect (LogWarn (restart_message x filename)) (emit_effect (LogWarn []) st)"
  have "K x a p C ?s1" using assms(1) unfolding K_defs by simp
  moreover have "watching ?s1" using assms(2) by simp
  ultimately have "K x a p C (restart ?s1)" by (rule K_restart)
  then show ?thesis using False by (simp add: on_config_change_def)
qed

lemma K_worker_ended:
  assumes "K x a p C st" and "watching st"
  shows "K x a p C (worker_ended x w oc st)"
proof (cases oc)
  case (Some e)
  then show ?thesis using K_run_failed [OF assms(1)] by (simp add: worker_ended_def)
next
  case None
  then show ?thesis
    using assms unfolding K_defs by (simp add: worker_ended_def runDevServer_def)
qed

lemma K_start_server:
  assumes "K x a p C st" and "watching st" and "payload_ok x a p C (StartServerCall w opts)"
    and "self_signed a \<longrightarrow> CreateSelfSignedCertificate (arg_hostname a) \<in> set (plog st)"
  shows "K x a p C (start_server reboot w opts st)"
  using assms unfolding K_defs by (simp add: start_server_def)

lemma K_run_after_create:
  assumes "K x a p C st" and "watching st"
  shows "K x a p C (run_after_create x reboot w st)"
proof -
  have n: "nd_args st = a" and h: "nd_host st = arg_hostname a"
    and o: "so_allowRetry (devServerOptions st) = retry_allowed a p"
      "so_selfSignedCertificate (devServerOptions st) = None"
    using assms unfolding K_defs by simp_all
  show ?thesis
  proof (cases "arg_https a = Some True")
    case False
    have "K x a p C (start_server reboot w (devServerOptions st) st)"
      by (rule K_start_server [OF assms]) (simp_all add: o False self_signed_def)
    then show ?thesis using False n by (simp add: run_after_create_def)
  next
    case True
    let ?s1 = "emit_effect (LogWarn https_warning) st"
    have k1: "K x a p C ?s1" using assms(1) unfolding K_defs by simp
    have w1: "watching ?s1" using assms(2) by simp
    show ?thesis
    proof (cases "explicit_paths a")
      case (Some kc)
      obtain k c where kc: "kc = (k, c)" by (cases kc)
      let ?o = "(devServerOptions st)\<lparr>so_selfSignedCertificate :=
                   Some \<lparr>key = path_resolve x k, cert = path_resolve x c\<rparr>\<rparr>"
      have "K x a p C (start_server reboot w ?o ?s1)"
        by (rule K_start_server [OF k1 w1])
           (simp_all add: o True Some kc explicit_certificate_def self_signed_def)
      then show ?thesis
        using True Some kc n by (simp add: run_after_create_def Let_def)
    next
      case None
      have "K x a p C (suspend (RunAwaitCert reboot w)
                        (emit_effect (CreateSelfSignedCertificate (nd_host st)) ?s1))"
        using assms True None h unfolding K_defs by (simp add: self_signed_def)
      then show ?thesis
        using True None n by (simp add: run_after_create_def Let_def)
    qed
  qed
qed

lemma K_worker_created:
  assumes "K x a p C st" and "watching st"
  shows "K x a p C (worker_created x reboot cfg oc st)"
proof (cases oc)
  case (Inl e)
  then show ?thesis using K_run_failed [OF assms(1)] by (simp add: worker_created_def)
next
  case (Inr shape)
  show ?thesis
  proof (cases cfg)
    case None
    then show ?thesis using Inr K_run_failed [OF assms(1)] by (simp add: worker_created_def)
  next
    case (Some fc)
    let ?s1 = "snd (createRouterWorker fc shape st)"
    have "K x a p C ?s1" using assms(1) unfolding K_defs by simp
    moreover have "watching ?s1" using assms(2) by simp
    ultimately have "K x a p C (run_after_create x reboot (fst (createRouterWorker fc shape st)) ?s1)"
      by (rule K_run_after_create)
    then show ?thesis using Inr Some by (simp add: worker_created_def case_prod_beta)
  qed
qed

lemma K_cert_created:
  assumes "K x a p C st" and "watching st" and "self_signed a"
    and "CreateSelfSignedCertificate (arg_hostname a) \<in> set (plog st)"
    and "delivered (CertCreated reboot w oc) \<subseteq> C"
  shows "K x a p C (cert_created x reboot w oc st)"
proof (cases oc)
  case (Inl e)
  then show ?thesis using K_run_failed [OF assms(1)] by (simp add: cert_created_def)
next
  case (Inr c)
  have o: "so_allowRetry (devServerOptions st) = retry_allowed a p"
    using assms(1,2) unfolding K_defs by simp
  have "K x a p C (start_server reboot w ((devServerOptions st)\<lparr>so_selfSignedCertificate := c\<rparr>) st)"
    by (rule K_start_server [OF assms(1,2)])
       (use assms(3,4,5) Inr o in \<open>simp_all add: self_signed_def\<close>)
  then show ?thesis using Inr by (simp add: cert_created_def)
qed

lemma K_server_started:
  assumes "K x a p C st" and "watching st"
  shows "K x a p C (server_started x reboot w oc st)"
proof (cases oc)
  case (Some e)
  then show ?thesis using K_run_failed [OF assms(1)] by (simp add: server_started_def)
next
  case None
  then show ?thesis using assms unfolding K_defs by (simp add: server_started_def)
qed

lemma K_preflight_done:
  assumes "K x a p C st"
  shows "K x a p C (preflight_done x reboot w oc st)"
proof (cases oc)
  case (Some e)
  then show ?thesis using K_run_failed [OF assms(1)] by (simp add: preflight_done_def)
next
  case None
  then show ?thesis using assms unfolding K_defs by (simp add: preflight_done_def)
qed

lemma K_stop_config_loaded:
  assumes "K x a p C st"
  shows "K x a p C (stop_config_loaded (process_exit x) x oc st)"
proof -
  have f: "K x a p C s \<Longrightarrow> K x a p C (stop_finish (process_exit x) x s)" for s
    using K_kept [OF kept_stop_finish [of "process_exit x", OF kept_process_exit]] by blast
  have c: "K x a p C (st\<lparr>config := v\<rparr>)" for v
    using assms unfolding K_defs by simp
  have t: "K x a p C (stop_telemetry x cf (st\<lparr>config := v\<rparr>))" for cf v
    using K_kept [OF kept_stop_telemetry c] .
  show ?thesis
    using f [OF assms] f [OF t] by (simp add: stop_config_loaded_def Let_def split: option.splits)
qed

lemma K_child_upd: "K x a p C (child_upd c f st) = K x a p C st"
  by (simp add: K_defs child_upd_def ptasks_def plog_def)

lemma K_disk: "K x a p C (st\<lparr>diskConfig := c, diskFeatures := fs\<rparr>) = K x a p C st"
  by (simp add: K_defs)

lemma in_ptasks: "t \<in> set (tasks st) \<Longrightarrow> t \<noteq> StopAwaitLoadConfig \<Longrightarrow> t \<in> set (ptasks st)"
  by (simp add: ptasks_def)

lemma K_watching: "K x a p C st \<Longrightarrow> t \<in> set (ptasks st) \<Longrightarrow> is_run_task t \<Longrightarrow> watching st"
  unfolding K_def by blast

lemma K_cert_task:
  "K x a p C st \<Longrightarrow> RunAwaitCert r w \<in> set (ptasks st) \<Longrightarrow>
   self_signed a \<and> CreateSelfSignedCertificate (arg_hostname a) \<in> set (plog st)"
  unfolding K_def by (metis is_cert_task.simps(1))

lemma K_payload: "K x a p C st \<Longrightarrow> e \<in> set (plog st) \<Longrightarrow> payload_ok x a p C e"
  unfolding K_def by blast

lemma K_preceded:
  "K x a p C st \<Longrightarrow> e \<in> set (plog st) \<Longrightarrow> is_start_call e \<Longrightarrow> self_signed a \<Longrightarrow>
   CreateSelfSignedCertificate (arg_hostname a) \<in> set (plog st)"
  unfolding K_def by blast

lemma K_react:
  assumes i: "K x a p C st"
  shows "K x a p (C \<union> delivered ev) (react x ev st)"
proof -
  note m = K_mono [OF _ Un_upper1 [of C "delivered ev"]]
  let ?take = "\<lambda>t. st\<lparr>tasks := remove1 t (tasks st)\<rparr>"
  have tk: "K x a p C (?take t)" for t using K_take [OF i] .
  show ?thesis
  proof (cases ev)
    case (Signal sg)
    have "kept st (dispatch (process_exit x) x ls st)" for ls
      by (rule kept_dispatch) (rule kept_process_exit)
    then have "K x a p C (dispatch (process_exit x) x ls st)" for ls
      using K_kept i by blast
    moreover have "K x a p C (reallyExit c st)" for c
      using K_kept [OF kept_reallyExit i] .
    ultimately show ?thesis using Signal m by simp
  next
    case (ConfigChange filename c fs)
    let ?s1 = "st\<lparr>diskConfig := c, diskFeatures := fs\<rparr>"
    have k1: "K x a p C ?s1" using i by (simp add: K_disk)
    have "watching ?s1 \<Longrightarrow> K x a p C (on_config_change x filename ?s1)"
      using K_on_config_change [OF k1] .
    then show ?thesis using ConfigChange k1 m by (simp add: Let_def)
  next
    case (ChildExit c)
    have "kept s (dispatch (process_exit x) x ls s)" for ls s
      by (rule kept_dispatch) (rule kept_process_exit)
    then have "K x a p C (dispatch (process_exit x) x ls (child_upd c f st))" for ls f
      using K_kept i K_child_upd by blast
    then show ?thesis using ChildExit i m by simp
  next
    case (DirChecked found)
    show ?thesis
    proof (cases "DevAwaitFileExists \<in> set (tasks st)")
      case True
      then have "nd_args st = a" using i in_ptasks [OF True] by (simp add: K_def)
      then have "K x a p C (dev_dir_checked x found (?take DevAwaitFileExists))"
        by (intro K_dev_dir_checked tk) simp
      then show ?thesis using DirChecked True m by (simp add: resume_def)
    next
      case False
      then show ?thesis using DirChecked i m by (simp add: resume_def)
    qed
  next
    case (DevConfigLoaded oc)
    show ?thesis
    proof (cases "DevAwaitLoadConfig \<in> set (tasks st)")
      case True
      then have c: "checked st" using in_ptasks [OF True] by (simp add: checked_def)
      then have "nd_args st = a" "nd_allowRetry st = retry_allowed a p" "nd_host st = arg_hostname a"
        using i by (simp_all add: K_def)
      then have "K x a p C (dev_config_loaded x oc (?take DevAwaitLoadConfig))"
        by (intro K_dev_config_loaded tk) simp_all
      then show ?thesis using DevConfigLoaded True m by (simp add: resume_def)
    next
      case False
      then show ?thesis using DevConfigLoaded i m by (simp add: resume_def)
    qed
  next
    case (TurboValidated oc)
    show ?thesis
    proof (cases "DevAwaitTurbo \<in> set (tasks st)")
      case True
      then have c: "checked st" "set_up st"
        using in_ptasks [OF True] by (simp_all add: checked_def set_up_def)
      then have "nd_args st = a" "nd_allowRetry st = retry_allowed a p" "nd_host st = arg_hostname a"
        "so_allowRetry (devServerOptions st) = retry_allowed a p"
        "so_selfSignedCertificate (devServerOptions st) = None"
        using i by (simp_all add: K_def)
      then have "K x a p C (turbo_validated x oc (?take DevAwaitTurbo))"
        by (intro K_turbo_validated tk) simp_all
      then show ?thesis using TurboValidated True m by (simp add: resume_def)
    next
      case False
      then show ?thesis using TurboValidated i m by (simp add: resume_def)
    qed
  next
    case (StopConfigLoaded oc)
    have "K x a p C (stop_config_loaded (process_exit x) x oc (?take StopAwaitLoadConfig))"
      using K_stop_config_loaded [OF tk] .
    then show ?thesis using StopConfigLoaded i m by (simp add: resume_def)
  next
    case (WorkerCreated reboot cfg oc)
    show ?thesis
    proof (cases "RunAwaitCreate reboot cfg \<in> set (tasks st)")
      case True
      then have "watching st" using K_watching [OF i in_ptasks [OF True]] by simp
      then have "K x a p C (worker_created x reboot cfg oc (?take (RunAwaitCreate reboot cfg)))"
        by (intro K_worker_created tk) simp
      then show ?thesis using WorkerCreated True m by (simp add: resume_def)
    next
      case False
      then show ?thesis using WorkerCreated i m by (simp add: resume_def)
    qed
  next
    case (CertCreated reboot w oc)
    show ?thesis
    proof (cases "RunAwaitCert reboot w \<in> set (tasks st)")
      case True
      have mem: "RunAwaitCert reboot w \<in> set (ptasks st)" using in_ptasks [OF True] by simp
      have f: "watching st" "self_signed a"
        "CreateSelfSignedCertificate (arg_hostname a) \<in> set (plog st)"
        using K_watching [OF i mem] K_cert_task [OF i mem] by simp_all
      let ?s = "?take (RunAwaitCert reboot w)"
      have k2: "K x a p (C \<union> delivered ev) ?s" using m [OF tk] .
      have "K x a p (C \<union> delivered ev) (cert_created x reboot w oc ?s)"
        by (rule K_cert_created [OF k2]) (use f CertCreated in \<open>simp_all add: plog_def\<close>)
      then show ?thesis using CertCreated True by (simp add: resume_def)
    next
      case False
      then show ?thesis using CertCreated i m by (simp add: resume_def)
    qed
  next
    case (ServerStarted reboot w oc)
    show ?thesis
    proof (cases "RunAwaitStart reboot w \<in> set (tasks st)")
      case True
      then have "watching st" using K_watching [OF i in_ptasks [OF True]] by simp
      then have "K x a p C (server_started x reboot w oc (?take (RunAwaitStart reboot w)))"
        by (intro K_server_started tk) simp
      then show ?thesis using ServerStarted True m by (simp add: resume_def)
    next
      case False
      then show ?thesis using ServerStarted i m by (simp add: resume_def)
    qed
  next
    case (PreflightDone reboot w oc)
    have "K x a p C (preflight_done x reboot w oc (?take (RunAwaitPreflight reboot w)))"
      by (intro K_preflight_done tk)
    then show ?thesis using PreflightDone i m by (simp add: resume_def)
  next
    case (WorkerEnded w oc)
    show ?thesis
    proof (cases "RestartAwaitCleanup w \<in> set (tasks st)")
      case True
      then have "watching st" using K_watching [OF i in_ptasks [OF True]] by simp
      then have "K x a p C (worker_ended x w oc (?take (RestartAwaitCleanup w)))"
        by (intro K_worker_ended tk) simp
      then show ?thesis using WorkerEnded True m by (simp add: resume_def)
    next
      case False
      then show ?thesis using WorkerEnded i m by (simp add: resume_def)
    qed
  qed
qed

lemma K_step: "K x a p C st \<Longrightarrow> K x a p (C \<union> delivered ev) (step x ev st)"
proof -
  assume i: "K x a p C st"
  have "K x a p (C \<union> delivered ev) (drain_rejections x (react x ev st))"
    using K_kept [OF kept_drain_rejections K_react [OF i]] .
  moreover have "K x a p (C \<union> delivered ev) st"
    using K_mono [OF i] by blast
  ultimately show ?thesis by (simp add: step_def)
qed

lemma K_run: "K x a p C st \<Longrightarrow> K x a p (C \<union> \<Union> (delivered ` set evs)) (run x evs st)"
proof (induction evs arbitrary: C st)
  case Nil
  then show ?case by (simp add: run_def)
next
  case (Cons ev evs)
  have "K x a p ((C \<union> delivered ev) \<union> \<Union> (delivered ` set evs)) (run x evs (step x ev st))"
    using Cons.IH [OF K_step [OF Cons.prems]] .
  moreover have "run x (ev # evs) st = run x evs (step x ev st)" by (simp add: run_def)
  moreover have "(C \<union> delivered ev) \<union> \<Union> (delivered ` set evs) = C \<union> \<Union> (delivered ` set (ev # evs))"
    by auto
  ultimately show ?case by simp
qed

lemma K_session:
  "K x a (env ''PORT'') (\<Union> (delivered ` set evs)) (session x a now env disk feats evs)"
proof -
  have "K x a (env ''PORT'') ({} \<union> \<Union> (delivered ` set evs))
          (run x evs (nextDev x a (module_loaded now env disk feats)))"
    by (rule K_run) (rule K_nextDev)
  then show ?thesis by (simp add: session_def)
qed

lemma delivered_event: "(w, c) \<in> \<Union> (delivered ` set evs) \<Longrightarrow> \<exists>r. CertCreated r w (Inr c) \<in> set evs"
proof -
  assume "(w, c) \<in> \<Union> (delivered ` set evs)"
  then obtain ev where ev: "ev \<in> set evs" "(w, c) \<in> delivered ev" by blast
  then obtain r where "ev = CertCreated r w (Inr c)"
    by (cases ev rule: delivered.cases) auto
  then show ?thesis using ev(1) by blast
qed

lemma explicit_paths_None: "explicit_paths a = None \<longleftrightarrow> \<not> (truthy (arg_https_key a) \<and> truthy (arg_https_cert a))"
  by (auto simp: explicit_paths_def truthy_def split: option.splits)

lemma explicit_paths_Some:
  "arg_https_key a = Some k \<Longrightarrow> k \<noteq> [] \<Longrightarrow> arg_https_cert a = Some c \<Longrightarrow> c \<noteq> [] \<Longrightarrow>
   explicit_paths a = Some (k, c)"
  by (simp add: explicit_paths_def)

section \<open>Port retry\<close>

lemma start_call_in_plog: "StartServerCall w opts \<in> set (effects st) \<Longrightarrow> StartServerCall w opts \<in> set (plog st)"
  by (simp add: plog_def)

text \<open>
  C10. In every session, each \<^verbatim>\<open>startServer\<close> call, the first one and the one of
  every restart, is made with \<^verbatim>\<open>allowRetry\<close> true exactly when neither
  \<^verbatim>\<open>--port\<close> nor the environment variable \<^verbatim>\<open>PORT\<close> is set.
\<close>

theorem allow_retry_iff_no_port:
  assumes "StartServerCall w opts \<in> set (effects (session x a now env disk feats evs))"
  shows "so_allowRetry opts \<longleftrightarrow> arg_port a = None \<and> env ''PORT'' = None"
  using K_payload [OF K_session start_call_in_plog [OF assms]]
  by (simp add: retry_allowed_def)

theorem allow_retry_iff_no_port_witness:
  "StartServerCall 0 plain_options \<in> set (effects (some_session started_events)) \<and>
   so_allowRetry plain_options \<and> arg_port no_args = None \<and>
   (Map.empty :: string \<Rightarrow> string option) ''PORT'' = None"
proof -
  have h: "StartServerCall 0 plain_options \<in> set (effects (some_session started_events))"
    by code_simp
  then have "StartServerCall 0 plain_options \<in>
      set (effects (session some_ext no_args 0 Map.empty some_config [] started_events))"
    by (simp add: some_session_def)
  from allow_retry_iff_no_port [OF this] h show ?thesis
    by (simp add: no_args_def)
qed

section \<open>Certificate material\<close>

text \<open>
  C7, as the code has it. In every session and for each \<^verbatim>\<open>startServer\<close> call, the
  first one and the one of every restart: without \<^verbatim>\<open>--experimental-https\<close> the
  payload has no certificate; with the flag and both paths given (truthy), the
  certificate is the two paths through \<^verbatim>\<open>path.resolve\<close>; with the flag and a
  path missing, \<^verbatim>\<open>createSelfSignedCertificate\<close> has been called with the
  configured hostname, and the payload carries what that call delivered for this
  worker: a certificate, or nothing when it delivered \<^verbatim>\<open>undefined\<close>.
\<close>

theorem certificate_material:
  assumes "StartServerCall w opts \<in> set (effects (session x a now env disk feats evs))"
  shows "(arg_https a \<noteq> Some True \<longrightarrow> so_selfSignedCertificate opts = None) \<and>
         (arg_https a = Some True \<and> arg_https_key a = Some k \<and> k \<noteq> [] \<and>
          arg_https_cert a = Some c \<and> c \<noteq> [] \<longrightarrow>
            so_selfSignedCertificate opts = Some \<lparr>key = path_resolve x k, cert = path_resolve x c\<rparr>) \<and>
         (arg_https a = Some True \<and> \<not> (truthy (arg_https_key a) \<and> truthy (arg_https_cert a)) \<longrightarrow>
            CreateSelfSignedCertificate (arg_hostname a) \<in>
              set (effects (session x a now env disk feats evs)) \<and>
            (\<exists>r. CertCreated r w (Inr (so_selfSignedCertificate opts)) \<in> set evs))"
proof (intro conjI impI)
  let ?st = "session x a now env disk feats evs"
  let ?C = "\<Union> (delivered ` set evs)"
  note mem = start_call_in_plog [OF assms]
  note ok = K_payload [OF K_session mem]
  show "so_selfSignedCertificate opts = None" if "arg_https a \<noteq> Some True"
    using ok that by simp
  show "so_selfSignedCertificate opts = Some \<lparr>key = path_resolve x k, cert = path_resolve x c\<rparr>"
    if "arg_https a = Some True \<and> arg_https_key a = Some k \<and> k \<noteq> [] \<and>
        arg_https_cert a = Some c \<and> c \<noteq> []"
  proof -
    have "explicit_paths a = Some (k, c)" using that by (simp add: explicit_paths_Some)
    then show ?thesis using ok that by (simp add: explicit_certificate_def)
  qed
  assume h: "arg_https a = Some True \<and> \<not> (truthy (arg_https_key a) \<and> truthy (arg_https_cert a))"
  then have n: "explicit_paths a = None" by (simp add: explicit_paths_None)
  then have s: "self_signed a" using h by (simp add: self_signed_def)
  have "CreateSelfSignedCertificate (arg_hostname a) \<in> set (plog ?st)"
    using K_preceded [OF K_session mem _ s] by simp
  then show "CreateSelfSignedCertificate (arg_hostname a) \<in> set (effects ?st)"
    by (simp add: plog_def)
  have "(w, so_selfSignedCertificate opts) \<in> ?C" using ok h n by simp
  then show "\<exists>r. CertCreated r w (Inr (so_selfSignedCertificate opts)) \<in> set evs"
    by (rule delivered_event)
qed

theorem certificate_material_witness:
  "StartServerCall 0 plain_options \<in> set (effects (some_session started_events)) \<and>
   arg_https no_args \<noteq> Some True \<and> so_selfSignedCertificate plain_options = None \<and>
   StartServerCall 0
     (plain_options\<lparr>so_selfSignedCertificate := Some \<lparr>key = ''/cwd/key.pem'', cert = ''/cwd/cert.pem''\<rparr>\<rparr>)
     \<in> set (effects (session some_ext https_paths_args 0 Map.empty some_config [] created_events)) \<and>
   arg_https https_paths_args = Some True \<and>
   arg_https_key https_paths_args = Some ''key.pem'' \<and>
   arg_https_cert https_paths_args = Some ''cert.pem'' \<and>
   path_resolve some_ext ''key.pem'' = ''/cwd/key.pem'' \<and>
   path_resolve some_ext ''cert.pem'' = ''/cwd/cert.pem'' \<and>
   StartServerCall 0
     (plain_options\<lparr>so_hostname := Some ''dev.local'',
                    so_selfSignedCertificate := Some generated_certificate\<rparr>)
     \<in> set (effects (session some_ext https_args 0 Map.empty some_config []
                       (created_events @ [CertCreated False 0 (Inr (Some generated_certificate))]))) \<and>
   arg_https https_args = Some True \<and> \<not> truthy (arg_https_key https_args) \<and>
   CreateSelfSignedCertificate (Some ''dev.local'')
     \<in> set (effects (session some_ext https_args 0 Map.empty some_config []
                       (created_events @ [CertCreated False 0 (Inr (Some generated_certificate))])))"
proof -
  have 1: "StartServerCall 0 plain_options \<in>
      set (effects (session some_ext no_args 0 Map.empty some_config [] started_events))"
    by code_simp
  have 2: "StartServerCall 0
     (plain_options\<lparr>so_selfSignedCertificate := Some \<lparr>key = ''/cwd/key.pem'', cert = ''/cwd/cert.pem''\<rparr>\<rparr>)
     \<in> set (effects (session some_ext https_paths_args 0 Map.empty some_config [] created_events))"
    by code_simp
  have 3: "StartServerCall 0
     (plain_options\<lparr>so_hostname := Some ''dev.local'',
                    so_selfSignedCertificate := Some generated_certificate\<rparr>)
     \<in> set (effects (session some_ext https_args 0 Map.empty some_config []
                       (created_events @ [CertCreated False 0 (Inr (Some generated_certificate))])))"
    by code_simp
  have a: "arg_https no_args \<noteq> Some True" "arg_https https_paths_args = Some True"
    "arg_https_key https_paths_args = Some ''key.pem''"
    "arg_https_cert https_paths_args = Some ''cert.pem''"
    "arg_https https_args = Some True" "\<not> truthy (arg_https_key https_args)"
    "arg_hostname https_args = Some ''dev.local''"
    "path_resolve some_ext ''key.pem'' = ''/cwd/key.pem''"
    "path_resolve some_ext ''cert.pem'' = ''/cwd/cert.pem''"
    by (simp_all add: no_args_def https_paths_args_def https_args_def truthy_def some_ext_def)
  show ?thesis
    using 1 2 3 a
      certificate_material [OF 1, of "''k''" "''c''"]
      certificate_material [OF 2, of "''key.pem''" "''cert.pem''"]
      certificate_material [OF 3, of "''k''" "''c''"]
    by (simp add: some_session_def)
qed

text \<open>
  C7 as the claim states it fails in its third part: with
  \<^verbatim>\<open>--experimental-https\<close> and no paths, \<^verbatim>\<open>createSelfSignedCertificate\<close> may
  deliver \<^verbatim>\<open>undefined\<close> (the type of line 370 allows it), and \<^verbatim>\<open>startServer\<close>
  is then called with no certificate material.
\<close>

theorem no_generated_certificate_counterexample:
  "arg_https https_args = Some True \<and> arg_https_key https_args = None \<and>
   arg_https_cert https_args = None \<and>
   StartServerCall 0 (plain_options\<lparr>so_hostname := Some ''dev.local''\<rparr>)
     \<in> set (effects (session some_ext https_args 0 Map.empty some_config []
                       (created_events @ [CertCreated False 0 (Inr None)]))) \<and>
   so_selfSignedCertificate (plain_options\<lparr>so_hostname := Some ''dev.local''\<rparr>) = None"
  by code_simp

lemma pool_children_pools: "pool_children w st = pool_list (pools st) w"
  by (simp add: pool_children_def pool_list_def pools_def)

lemma L_same:
  assumes "same_listeners st st'" and "L st"
  shows "L st'"
proof -
  have e: "plisteners st' = plisteners st" "clisteners st' = clisteners st" "pools st' = pools st"
    using assms(1) by (simp_all add: same_listeners_def)
  show ?thesis using assms(2) unfolding L_def e .
qed

lemma same_refl: "same_listeners st st"
  by (simp add: same_listeners_def)

lemma same_trans:
  assumes "same_listeners a b" and "same_listeners b c"
  shows "same_listeners a c"
proof -
  have 1: "plisteners b = plisteners a" "clisteners b = clisteners a" "pools b = pools a"
    using assms(1) unfolding same_listeners_def by blast+
  have 2: "plisteners c = plisteners b" "clisteners c = clisteners b" "pools c = pools b"
    using assms(2) unfolding same_listeners_def by blast+
  show ?thesis unfolding same_listeners_def using 1 2 by (intro conjI) (rule trans, assumption, assumption)+
qed

lemma same_kept:
  assumes "kept st st'"
  shows "same_listeners st st'"
  using kept_fields(1,2) [OF assms] assms
  by (simp add: same_listeners_def clisteners_def pools_def kept_def)

lemma L_kept: "kept st st' \<Longrightarrow> L st \<Longrightarrow> L st'"
  using L_same same_kept by blast

lemma count_list_remove1_any:
  "count_list (remove1 a xs) b = (if a = b then count_list xs b - 1 else count_list xs b)"
  by (induction xs) auto

lemma count_list_remove_last:
  "count_list (remove_last a xs) b = (if a = b then count_list xs b - 1 else count_list xs b)"
  by (simp add: remove_last_def count_list_remove1_any del: count_list_remove1)

lemma listener_views [simp]:
  "plisteners (emit_effect e st) = plisteners st" "clisteners (emit_effect e st) = clisteners st"
  "pools (emit_effect e st) = pools st"
  "plisteners (suspend t st) = plisteners st" "clisteners (suspend t st) = clisteners st"
  "pools (suspend t st) = pools st"
  "plisteners (worker_upd w (\<lambda>r. r\<lparr>w_status := s\<rparr>) st) = plisteners st"
  "clisteners (worker_upd w (\<lambda>r. r\<lparr>w_status := s\<rparr>) st) = clisteners st"
  "pools (worker_upd w (\<lambda>r. r\<lparr>w_status := s\<rparr>) st) = pools st"
  "plisteners (child_upd c (\<lambda>ch. ch\<lparr>c_exited := b\<rparr>) st) = plisteners st"
  "clisteners (child_upd c (\<lambda>ch. ch\<lparr>c_exited := b\<rparr>) st) = clisteners st"
  "pools (child_upd c (\<lambda>ch. ch\<lparr>c_exited := b\<rparr>) st) = pools st"
  by (simp_all add: clisteners_def pools_def emit_effect_def suspend_def worker_upd_def
        child_upd_def map_update list_update_same_conv)

lemma same_field_updates:
  "same_listeners st (st\<lparr>tasks := v1\<rparr>)" "same_listeners st (st\<lparr>config := v2\<rparr>)"
  "same_listeners st (st\<lparr>diskConfig := v3, diskFeatures := v4\<rparr>)"
  "same_listeners st (st\<lparr>runningServer := v5\<rparr>)"
  "same_listeners st (st\<lparr>watching := v6\<rparr>)"
  "same_listeners st (st\<lparr>nd_args := v7, dir := v8\<rparr>)"
  by (simp_all add: same_listeners_def clisteners_def pools_def)

lemma same_run_failed: "same_listeners st (run_failed x e st)"
proof -
  have "kept st (run_failed x e st)"
    unfolding run_failed_def using kept_trans [OF kept_emit kept_process_exit] by simp
  then show ?thesis by (rule same_kept)
qed

lemma same_runDevServer: "same_listeners st (runDevServer r st)"
  by (simp add: same_listeners_def runDevServer_def)

lemma same_start_server: "same_listeners st (start_server r w opts st)"
  by (simp add: same_listeners_def start_server_def)

lemma same_run_after_create: "same_listeners st (run_after_create x r w st)"
  by (simp add: same_listeners_def run_after_create_def start_server_def Let_def
        split: option.splits prod.splits)

lemma same_cert_created: "same_listeners st (cert_created x r w oc st)"
  by (cases oc) (simp_all add: cert_created_def same_run_failed same_start_server)

lemma same_server_started: "same_listeners st (server_started x r w oc st)"
  by (cases oc) (simp_all add: server_started_def same_run_failed, simp add: same_listeners_def)

lemma same_preflight_done: "same_listeners st (preflight_done x r w oc st)"
  by (cases oc) (simp_all add: preflight_done_def same_run_failed same_field_updates)

lemma same_worker_ended: "same_listeners st (worker_ended x w oc st)"
  by (cases oc) (simp_all add: worker_ended_def same_run_failed, simp add: same_listeners_def runDevServer_def)

lemma same_dev_start: "same_listeners st (dev_start st)"
  by (simp add: same_listeners_def dev_start_def runDevServer_def suspend_def clisteners_def pools_def)

lemma same_dev_dir_checked: "same_listeners st (dev_dir_checked x found st)"
proof (cases found)
  case False
  let ?m = "''> No such directory exists as the project root: '' @
              (case dir st of None \<Rightarrow> ''undefined'' | Some d \<Rightarrow> d)"
  have "kept st (process_exit x 1 (emit_effect (ConsoleError ?m) st))"
    using kept_trans [OF kept_emit kept_process_exit] by simp
  then show ?thesis using False same_kept by (simp add: dev_dir_checked_def)
next
  case True
  then show ?thesis
    by (simp add: dev_dir_checked_def same_listeners_def suspend_def emit_effect_def
          clisteners_def pools_def)
qed

lemma same_dev_config_loaded: "same_listeners st (dev_config_loaded x oc st)"
  by (cases oc)
     (simp_all add: dev_config_loaded_def Let_def same_listeners_def dev_start_def runDevServer_def
        suspend_def emit_effect_def clisteners_def pools_def)

lemma same_turbo_validated: "same_listeners st (turbo_validated x oc st)"
  by (cases oc) (simp_all add: turbo_validated_def same_dev_start, simp add: same_listeners_def)

lemma same_stop_config_loaded: "same_listeners st (stop_config_loaded (process_exit x) x oc st)"
proof -
  have f: "same_listeners s (stop_finish (process_exit x) x s)" for s
    using same_kept [OF kept_stop_finish [of "process_exit x", OF kept_process_exit]] .
  have t: "same_listeners s (stop_telemetry x c s)" for s c
    using same_kept [OF kept_stop_telemetry] .
  have c: "same_listeners st (st\<lparr>config := v\<rparr>)" for v by (rule same_field_updates)
  show ?thesis
    using f [of st] same_trans [OF c same_trans [OF t f]]
    by (simp add: stop_config_loaded_def Let_def split: option.splits)
qed

lemma count_worker_listeners:
  "count_list (worker_listeners n) (ev, Cleanup w) = (if w = n then 1 else 0)"
  by (cases ev) (simp_all add: worker_listeners_def)

lemma clisteners_create:
  "clisteners (snd (createRouterWorker fc shape st)) =
     clisteners st @ replicate (length (filter id shape)) [Cleanup (length (workers st))]"
proof -
  let ?m = "length (children st)" and ?k = "length (filter id shape)"
  let ?n = "length (workers st)"
  let ?s = "st\<lparr>workers := workers st @ [new_worker fc ?m shape],
                children := children st @ replicate ?k new_child,
                effects := effects st @ [WorkerNew ?n]\<rparr>"
  let ?ch = "children (fold (child_on_exit (Cleanup ?n)) [?m ..< ?m + ?k] ?s)"
  have len: "length ?ch = ?m + ?k"
    by (simp add: length_children_fold_on_exit)
  have nth: "c_exitListeners (?ch ! c) =
             (clisteners st @ replicate ?k [Cleanup ?n]) ! c" if "c < ?m + ?k" for c
  proof -
    have l: "c < length (children ?s)" using that by simp
    show ?thesis
      using listeners_fold_on_exit [OF l, of "Cleanup ?n" "[?m ..< ?m + ?k]"] that
      by (auto simp: count_list_upt nth_append clisteners_def new_child_def)
  qed
  have "map c_exitListeners ?ch = clisteners st @ replicate ?k [Cleanup ?n]"
    by (rule nth_equalityI) (simp_all add: len nth clisteners_def)
  then show ?thesis by (simp add: clisteners_def createRouterWorker_children)
qed

lemma pools_create:
  "pools (snd (createRouterWorker fc shape st)) = pools st @ [pool_of (length (children st)) shape]"
  by (subst createRouterWorker_shape) (simp add: pools_def new_worker_def)

lemma plisteners_create:
  "plisteners (snd (createRouterWorker fc shape st)) =
     plisteners st @ worker_listeners (length (workers st))"
  by (subst createRouterWorker_shape) simp

lemma pool_list_append:
  "pool_list (ps @ [p]) w =
     (if w < length ps then pool_list ps w
      else if w = length ps then List.map_filter id p else [])"
  by (auto simp: pool_list_def nth_append)

lemma pool_list_beyond: "length ps \<le> w \<Longrightarrow> pool_list ps w = []"
  by (simp add: pool_list_def)

lemma L_create:
  assumes "L st"
  shows "L (snd (createRouterWorker fc shape st))"
proof -
  let ?m = "length (children st)" and ?k = "length (filter id shape)"
  let ?n = "length (workers st)"
  have n: "length (pools st) = ?n" and m: "length (clisteners st) = ?m"
    by (simp_all add: pools_def clisteners_def)
  have 1: "count_list (plisteners st) (ev, Cleanup w) \<le> (if w < ?n then 1 else 0)" for ev w
    using assms n by (simp add: L_def)
  have 2: "count_list (clisteners st ! c) (Cleanup w) \<le> count_list (pool_list (pools st) w) c"
    if "c < ?m" for c w
    using assms that m by (simp add: L_def)
  show ?thesis
    unfolding L_def plisteners_create pools_create clisteners_create
  proof (intro conjI allI impI)
    fix ev w
    show "count_list (plisteners st @ worker_listeners ?n) (ev, Cleanup w)
          \<le> (if w < length (pools st @ [pool_of ?m shape]) then 1 else 0)"
      using 1 [of ev w] by (auto simp: count_worker_listeners n split: if_splits)
  next
    fix c w
    assume "c < length (clisteners st @ replicate ?k [Cleanup ?n])"
    then have c: "c < ?m + ?k" by (simp add: m)
    show "count_list ((clisteners st @ replicate ?k [Cleanup ?n]) ! c) (Cleanup w)
          \<le> count_list (pool_list (pools st @ [pool_of ?m shape]) w) c"
    proof (cases "c < ?m")
      case True
      have old: "count_list (clisteners st ! c) (Cleanup w) \<le> count_list (pool_list (pools st) w) c"
        using 2 [OF True] .
      show ?thesis
      proof (cases "w < ?n")
        case w: True
        then show ?thesis using old True by (simp add: nth_append m pool_list_append n)
      next
        case w: False
        then have "pool_list (pools st) w = []" by (simp add: pool_list_beyond n)
        then have "count_list (clisteners st ! c) (Cleanup w) = 0" using old by simp
        then show ?thesis using True by (simp add: nth_append m)
      qed
    next
      case False
      then have e: "(clisteners st @ replicate ?k [Cleanup ?n]) ! c = [Cleanup ?n]"
        using c by (simp add: nth_append m)
      show ?thesis
        using False c
        by (simp add: e pool_list_append n map_filter_pool_of count_list_upt)
    qed
  qed
qed

lemma length_children_fold_off_exit:
  "length (children (fold (child_off_exit l) cs st)) = length (children st)"
  by (induction cs arbitrary: st) (simp_all add: child_off_exit_def child_upd_def)

lemma listeners_fold_off_exit:
  "c < length (children st) \<Longrightarrow>
   count_list (c_exitListeners (children (fold (child_off_exit l) cs st) ! c)) y =
     (if y = l then count_list (c_exitListeners (children st ! c)) y - count_list cs c
      else count_list (c_exitListeners (children st ! c)) y)"
proof (induction cs arbitrary: st)
  case Nil
  show ?case by simp
next
  case (Cons a cs)
  have len: "c < length (children (child_off_exit l a st))"
    using Cons.prems by (simp add: child_off_exit_def child_upd_def)
  have one: "count_list (c_exitListeners (children (child_off_exit l a st) ! c)) y =
             (if a = c \<and> y = l then count_list (c_exitListeners (children st ! c)) y - 1
              else count_list (c_exitListeners (children st ! c)) y)"
    using Cons.prems
    by (auto simp: child_off_exit_def child_upd_def nth_list_update count_list_remove_last)
  show ?case using Cons.IH [OF len] one by auto
qed

lemma children_async_cleanup:
  "children (async_cleanup w st) =
     children (fold (child_off_exit (Cleanup w)) (pool_children w st) st)"
  by (simp add: async_cleanup_def Let_def process_off_def emit_effect_def worker_upd_def)

lemma plisteners_async_cleanup:
  "plisteners (async_cleanup w st) =
     fold (\<lambda>e. remove_last (e, Cleanup w))
       [EvExit, SIGINT, SIGTERM, UncaughtException, UnhandledRejection] (plisteners st)"
  by (subst async_cleanup_shape) simp

lemma pools_async_cleanup: "pools (async_cleanup w st) = pools st"
  by (subst async_cleanup_shape) (simp add: pools_def map_update list_update_same_conv)

lemma count_plisteners_async_cleanup:
  "count_list (plisteners (async_cleanup w st)) (ev, Cleanup v) =
     (if v = w then count_list (plisteners st) (ev, Cleanup v) - 1
      else count_list (plisteners st) (ev, Cleanup v))"
  by (cases ev) (simp_all add: plisteners_async_cleanup count_list_remove_last)

lemma count_clisteners_async_cleanup:
  assumes "c < length (clisteners st)"
  shows "count_list (clisteners (async_cleanup w st) ! c) (Cleanup v) =
     (if v = w then count_list (clisteners st ! c) (Cleanup v) - count_list (pool_list (pools st) w) c
      else count_list (clisteners st ! c) (Cleanup v))"
proof -
  have c: "c < length (children st)" using assms by (simp add: clisteners_def)
  then have c2: "c < length (children (fold (child_off_exit (Cleanup w)) (pool_children w st) st))"
    by (simp add: length_children_fold_off_exit)
  show ?thesis
    using listeners_fold_off_exit [OF c, of "Cleanup w" "pool_children w st" "Cleanup v"] c c2
    by (simp add: clisteners_def children_async_cleanup pool_children_pools)
qed

lemma length_clisteners_async_cleanup: "length (clisteners (async_cleanup w st)) = length (clisteners st)"
  by (simp add: clisteners_def children_async_cleanup length_children_fold_off_exit)

lemma L_async_cleanup:
  assumes "L st"
  shows "L (async_cleanup w st)"
  unfolding L_def
proof (intro conjI allI impI)
  fix ev v
  have "count_list (plisteners st) (ev, Cleanup v) \<le> (if v < length (pools st) then 1 else 0)"
    using assms by (simp add: L_def)
  then show "count_list (plisteners (async_cleanup w st)) (ev, Cleanup v)
        \<le> (if v < length (pools (async_cleanup w st)) then 1 else 0)"
    by (auto simp: count_plisteners_async_cleanup pools_async_cleanup split: if_splits)
next
  fix c v
  assume "c < length (clisteners (async_cleanup w st))"
  then have c: "c < length (clisteners st)" by (simp add: length_clisteners_async_cleanup)
  have "count_list (clisteners st ! c) (Cleanup v) \<le> count_list (pool_list (pools st) v) c"
    using assms c by (simp add: L_def)
  then show "count_list (clisteners (async_cleanup w st) ! c) (Cleanup v)
        \<le> count_list (pool_list (pools (async_cleanup w st)) v) c"
    by (auto simp: count_clisteners_async_cleanup [OF c] pools_async_cleanup)
qed

text \<open>
  A property of the listener tables that survives the creation of a worker, the
  cleanup of a worker and everything that leaves the tables alone, survives a
  turn of the event loop.
\<close>

lemma listeners_react:
  assumes same: "\<And>s s'. same_listeners s s' \<Longrightarrow> P s \<Longrightarrow> P s'"
    and cr: "\<And>fc shape s. P s \<Longrightarrow> P (snd (createRouterWorker fc shape s))"
    and ac: "\<And>w s. P s \<Longrightarrow> P (async_cleanup w s)"
    and i: "P st"
  shows "P (react x ev st)"
proof -
  let ?take = "\<lambda>t. st\<lparr>tasks := remove1 t (tasks st)\<rparr>"
  have tk: "P (?take t)" for t using same [OF same_field_updates(1) i] .
  have res: "P (resume t k st)" if "\<And>s. same_listeners s (k s)" for t k
    using same [OF that tk] i by (simp add: resume_def)
  show ?thesis
  proof (cases ev)
    case (Signal sg)
    have "same_listeners st (dispatch (process_exit x) x ls st)" for ls
      by (rule same_kept, rule kept_dispatch) (rule kept_process_exit)
    moreover have "same_listeners st (reallyExit c st)" for c
      using same_kept [OF kept_reallyExit] .
    ultimately have "P (dispatch (process_exit x) x ls st)" "P (reallyExit c st)" for ls c
      using same i by blast+
    then show ?thesis using Signal by simp
  next
    case (ConfigChange filename c fs)
    let ?s1 = "st\<lparr>diskConfig := c, diskFeatures := fs\<rparr>"
    have p1: "P ?s1" using same [OF same_field_updates(3) i] .
    have e: "P (emit_effect e s)" if "P s" for e s
      by (rule same [OF _ that]) (simp add: same_listeners_def)
    have r: "P (restart s)" if "P s" for s
    proof (cases "runningServer s")
      case None
      then show ?thesis using same [OF same_runDevServer that] by (simp add: restart_def)
    next
      case (Some w)
      have "P (suspend (RestartAwaitCleanup w) (async_cleanup w s))"
        by (rule same [OF _ ac [OF that]]) (simp add: same_listeners_def)
      then show ?thesis using Some by (simp add: restart_def)
    qed
    have "P (on_config_change x filename ?s1)"
      unfolding on_config_change_def using e [OF p1] r [OF e [OF e [OF p1]]] by simp
    then show ?thesis using ConfigChange p1 by (simp add: Let_def)
  next
    case (ChildExit c)
    have "same_listeners s (dispatch (process_exit x) x ls s)" for ls s
      by (rule same_kept, rule kept_dispatch) (rule kept_process_exit)
    moreover have "P (child_upd c (\<lambda>ch. ch\<lparr>c_exited := True\<rparr>) st)"
      by (rule same [OF _ i]) (simp add: same_listeners_def)
    ultimately have "P (dispatch (process_exit x) x ls (child_upd c (\<lambda>ch. ch\<lparr>c_exited := True\<rparr>) st))" for ls
      using same by blast
    then show ?thesis using ChildExit i by simp
  next
    case (DirChecked found)
    then show ?thesis using res [of "dev_dir_checked x found"] same_dev_dir_checked by simp
  next
    case (DevConfigLoaded oc)
    then show ?thesis using res [of "dev_config_loaded x oc"] same_dev_config_loaded by simp
  next
    case (TurboValidated oc)
    then show ?thesis using res [of "turbo_validated x oc"] same_turbo_validated by simp
  next
    case (StopConfigLoaded oc)
    then show ?thesis
      using res [of "stop_config_loaded (process_exit x) x oc"] same_stop_config_loaded by simp
  next
    case (WorkerCreated reboot cfg oc)
    have "P (worker_created x reboot cfg oc s)" if "P s" for s
    proof (cases oc)
      case (Inl e)
      then show ?thesis using same [OF same_run_failed that] by (simp add: worker_created_def)
    next
      case (Inr shape)
      show ?thesis
      proof (cases cfg)
        case None
        then show ?thesis using Inr same [OF same_run_failed that] by (simp add: worker_created_def)
      next
        case (Some fc)
        have "P (run_after_create x reboot (fst (createRouterWorker fc shape s))
                   (snd (createRouterWorker fc shape s)))"
          using same [OF same_run_after_create cr [OF that]] .
        then show ?thesis using Inr Some by (simp add: worker_created_def case_prod_beta)
      qed
    qed
    then show ?thesis using WorkerCreated tk i by (simp add: resume_def)
  next
    case (CertCreated reboot w oc)
    then show ?thesis using res [of "cert_created x reboot w oc"] same_cert_created by simp
  next
    case (ServerStarted reboot w oc)
    then show ?thesis using res [of "server_started x reboot w oc"] same_server_started by simp
  next
    case (PreflightDone reboot w oc)
    then show ?thesis using res [of "preflight_done x reboot w oc"] same_preflight_done by simp
  next
    case (WorkerEnded w oc)
    then show ?thesis using res [of "worker_ended x w oc"] same_worker_ended by simp
  qed
qed

lemma listeners_step:
  assumes same: "\<And>s s'. same_listeners s s' \<Longrightarrow> P s \<Longrightarrow> P s'"
    and cr: "\<And>fc shape s. P s \<Longrightarrow> P (snd (createRouterWorker fc shape s))"
    and ac: "\<And>w s. P s \<Longrightarrow> P (async_cleanup w s)"
    and i: "P st"
  shows "P (step x ev st)"
proof -
  have "P (react x ev st)" by (rule listeners_react [of P, OF same cr ac i])
  then have "P (drain_rejections x (react x ev st))"
    using same [OF same_kept [OF kept_drain_rejections]] by blast
  then show ?thesis using i by (simp add: step_def)
qed

lemma listeners_run:
  assumes same: "\<And>s s'. same_listeners s s' \<Longrightarrow> P s \<Longrightarrow> P s'"
    and cr: "\<And>fc shape s. P s \<Longrightarrow> P (snd (createRouterWorker fc shape s))"
    and ac: "\<And>w s. P s \<Longrightarrow> P (async_cleanup w s)"
  shows "P st \<Longrightarrow> P (run x evs st)"
  unfolding run_def
proof (induction evs arbitrary: st)
  case Nil
  then show ?case by simp
next
  case (Cons ev evs)
  have "P (step x ev st)" by (rule listeners_step [of P, OF same cr ac Cons.prems])
  then show ?case using Cons.IH by simp
qed

lemma L_run: "L st \<Longrightarrow> L (run x evs st)"
  by (rule listeners_run [of L]) (auto intro: L_same L_create L_async_cleanup)

lemma L_module_loaded: "L (module_loaded now env disk feats)"
  by (simp add: L_def module_loaded_def pools_def clisteners_def)

lemma L_nextDev: "L st \<Longrightarrow> L (nextDev x a st)"
proof -
  assume i: "L st"
  have "L (emit_effect (ConsoleLog (helpText x)) st)"
    by (rule L_same [OF _ i]) (simp add: same_listeners_def)
  then have 1: "L (process_exit x 0 (emit_effect (ConsoleLog (helpText x)) st))"
    using L_kept [OF kept_process_exit] by blast
  have 2: "L (suspend t (st\<lparr>nd_args := a, dir := d\<rparr>))" for t d
    by (rule L_same [OF _ i]) (simp add: same_listeners_def clisteners_def pools_def suspend_def)
  show ?thesis using 1 2 by (simp add: nextDev_def)
qed

lemma L_session: "L (session x a now env disk feats evs)"
  unfolding session_def by (intro L_run L_nextDev L_module_loaded)

lemma not_in_count: "x \<notin> set xs \<longleftrightarrow> count_list xs x = 0"
  by (simp add: count_list_0_iff)

lemma detached_count:
  "detached w st \<longleftrightarrow>
     (\<forall>ev. count_list (plisteners st) (ev, Cleanup w) = 0) \<and>
     (\<forall>c < length (clisteners st). count_list (clisteners st ! c) (Cleanup w) = 0)"
proof -
  have 1: "Cleanup w \<notin> set (map snd (plisteners st)) \<longleftrightarrow>
           (\<forall>ev. count_list (plisteners st) (ev, Cleanup w) = 0)"
    by (force simp: count_list_0_iff)
  have 2: "Cleanup w \<notin> set (concat (clisteners st)) \<longleftrightarrow>
           (\<forall>c < length (clisteners st). count_list (clisteners st ! c) (Cleanup w) = 0)"
    by (simp add: count_list_0_iff all_set_conv_all_nth)
  show ?thesis unfolding detached_def 1 2 ..
qed

lemma detached_async_cleanup:
  assumes "L st"
  shows "detached w (async_cleanup w st)"
  unfolding detached_count
proof (intro conjI allI impI)
  fix ev
  have "count_list (plisteners st) (ev, Cleanup w) \<le> 1"
    using assms unfolding L_def by (metis (full_types) le_trans zero_le_one order_refl)
  then show "count_list (plisteners (async_cleanup w st)) (ev, Cleanup w) = 0"
    by (simp add: count_plisteners_async_cleanup)
next
  fix c
  assume "c < length (clisteners (async_cleanup w st))"
  then have c: "c < length (clisteners st)" by (simp add: length_clisteners_async_cleanup)
  have "count_list (clisteners st ! c) (Cleanup w) \<le> count_list (pool_list (pools st) w) c"
    using assms c by (simp add: L_def)
  then show "count_list (clisteners (async_cleanup w st) ! c) (Cleanup w) = 0"
    by (simp add: count_clisteners_async_cleanup [OF c])
qed

lemma stays_same: "same_listeners s s' \<Longrightarrow> stays_detached w s \<Longrightarrow> stays_detached w s'"
  by (simp add: stays_detached_def detached_def same_listeners_def)

lemma stays_create:
  assumes "stays_detached w s"
  shows "stays_detached w (snd (createRouterWorker fc shape s))"
proof -
  have "w \<noteq> length (workers s)" using assms by (simp add: stays_detached_def pools_def)
  then show ?thesis
    using assms
    by (auto simp: stays_detached_def detached_def plisteners_create pools_create
          clisteners_create worker_listeners_def)
qed

lemma set_remove_last: "set (remove_last a xs) \<subseteq> set xs"
proof
  fix b assume "b \<in> set (remove_last a xs)"
  then have "count_list (remove_last a xs) b \<noteq> 0" by (simp add: count_list_0_iff)
  then have "count_list xs b \<noteq> 0" by (simp add: count_list_remove_last split: if_splits)
  then show "b \<in> set xs" by (simp add: count_list_0_iff)
qed

lemma stays_async_cleanup:
  assumes "stays_detached w s"
  shows "stays_detached w (async_cleanup v s)"
proof -
  have d: "detached w s" and l: "w < length (pools s)"
    using assms by (simp_all add: stays_detached_def)
  have "detached w (async_cleanup v s)"
    unfolding detached_count
  proof (intro conjI allI impI)
    fix ev
    show "count_list (plisteners (async_cleanup v s)) (ev, Cleanup w) = 0"
      using d unfolding detached_count by (auto simp: count_plisteners_async_cleanup)
  next
    fix c
    assume "c < length (clisteners (async_cleanup v s))"
    then have c: "c < length (clisteners s)" by (simp add: length_clisteners_async_cleanup)
    show "count_list (clisteners (async_cleanup v s) ! c) (Cleanup w) = 0"
      using d c unfolding detached_count by (auto simp: count_clisteners_async_cleanup [OF c])
  qed
  then show ?thesis using l by (simp add: stays_detached_def pools_async_cleanup)
qed

lemma stays_run: "stays_detached w st \<Longrightarrow> stays_detached w (run x evs st)"
  by (rule listeners_run [of "stays_detached w"])
     (auto intro: stays_same stays_create stays_async_cleanup)

lemma filter_remove_last_other: "\<not> P a \<Longrightarrow> filter P (remove_last a xs) = filter P xs"
  by (simp add: remove_last_def filter_remove1_other rev_filter [symmetric])

lemma other_fold_off_exit:
  "map (filter (\<lambda>l. l \<noteq> Cleanup w)) (clisteners (fold (child_off_exit (Cleanup w)) cs st)) =
   map (filter (\<lambda>l. l \<noteq> Cleanup w)) (clisteners st)"
proof (induction cs arbitrary: st)
  case Nil
  show ?case by simp
next
  case (Cons a cs)
  have "map (filter (\<lambda>l. l \<noteq> Cleanup w)) (clisteners (child_off_exit (Cleanup w) a st)) =
        map (filter (\<lambda>l. l \<noteq> Cleanup w)) (clisteners st)"
    by (simp add: clisteners_def child_off_exit_def child_upd_def map_update
          filter_remove_last_other list_update_same_conv)
  then show ?case using Cons.IH [of "child_off_exit (Cleanup w) a st"] by simp
qed

lemma other_async_cleanup: "other_listeners w (async_cleanup w st) = other_listeners w st"
proof -
  have 1: "clisteners (async_cleanup w st) =
           clisteners (fold (child_off_exit (Cleanup w)) (pool_children w st) st)"
    by (simp add: clisteners_def children_async_cleanup)
  show ?thesis
    by (simp add: other_listeners_def 1 other_fold_off_exit plisteners_async_cleanup
          filter_remove_last_other)
qed

lemma effects_async_cleanup: "effects (async_cleanup w st) = effects st @ [WorkerEndCall w]"
  by (subst async_cleanup_shape) simp

lemma workers_async_cleanup:
  "workers (async_cleanup w st) = (workers st)[w := (workers st ! w)\<lparr>w_status := Ending\<rparr>]"
  by (subst async_cleanup_shape) (simp add: list_update_beyond)

text \<open>
  C9. In every session, for a worker \<open>w\<close> that has been created: the cleanup that
  \<^verbatim>\<open>createRouterWorker\<close> returned for it leaves none of \<open>w\<close>'s listeners attached,
  not the \<^verbatim>\<open>exit\<close> listener of a child of its pool and not the process listeners
  for \<^verbatim>\<open>exit\<close>, \<^verbatim>\<open>SIGINT\<close>, \<^verbatim>\<open>SIGTERM\<close>, \<^verbatim>\<open>uncaughtException\<close> and
  \<^verbatim>\<open>unhandledRejection\<close>; every other listener stays where it was; the one thing
  the cleanup does besides is to call \<^verbatim>\<open>worker.end()\<close>, and the worker is ending;
  and whatever happens afterwards while the restart awaits that call, and after it
  has settled, no listener of \<open>w\<close> is attached again.
\<close>

theorem cleanup_detaches_listeners:
  assumes "st = session x a now env disk feats evs" and "w < length (workers st)"
  shows "detached w (async_cleanup w st) \<and>
         other_listeners w (async_cleanup w st) = other_listeners w st \<and>
         effects (async_cleanup w st) = effects st @ [WorkerEndCall w] \<and>
         w_status (workers (async_cleanup w st) ! w) = Ending \<and>
         detached w (run x later (suspend (RestartAwaitCleanup w) (async_cleanup w st)))"
proof -
  have l: "L st" using assms(1) L_session by simp
  have d: "detached w (async_cleanup w st)" using detached_async_cleanup [OF l] .
  have "w < length (pools st)" using assms(2) by (simp add: pools_def)
  then have "stays_detached w (async_cleanup w st)"
    using d by (simp add: stays_detached_def pools_async_cleanup)
  then have "stays_detached w (suspend (RestartAwaitCleanup w) (async_cleanup w st))"
    by (rule stays_same [rotated]) (simp add: same_listeners_def)
  then have "detached w (run x later (suspend (RestartAwaitCleanup w) (async_cleanup w st)))"
    using stays_run by (simp add: stays_detached_def)
  moreover have "w_status (workers (async_cleanup w st) ! w) = Ending"
    using assms(2) by (simp add: workers_async_cleanup)
  ultimately show ?thesis
    using d by (simp add: other_async_cleanup effects_async_cleanup)
qed

theorem cleanup_detaches_listeners_witness:
  "length (workers (some_session started_events)) = 1 \<and>
   plisteners (some_session started_events) =
     [(SIGINT, HandleSessionStop), (SIGTERM, HandleSessionStop),
      (EvExit, Cleanup 0), (SIGINT, Cleanup 0), (SIGTERM, Cleanup 0),
      (UncaughtException, Cleanup 0), (UnhandledRejection, Cleanup 0)] \<and>
   clisteners (some_session started_events) = [[Cleanup 0]] \<and>
   plisteners (async_cleanup 0 (some_session started_events)) =
     [(SIGINT, HandleSessionStop), (SIGTERM, HandleSessionStop)] \<and>
   clisteners (async_cleanup 0 (some_session started_events)) = [[]] \<and>
   detached 0 (async_cleanup 0 (some_session started_events)) \<and>
   detached 0 (run some_ext [WorkerEnded 0 None, WorkerCreated True (Some some_config) (Inr [True])]
                 (suspend (RestartAwaitCleanup 0) (async_cleanup 0 (some_session started_events))))"
proof -
  have 1: "length (workers (some_session started_events)) = 1" by code_simp
  have 2: "plisteners (some_session started_events) =
     [(SIGINT, HandleSessionStop), (SIGTERM, HandleSessionStop),
      (EvExit, Cleanup 0), (SIGINT, Cleanup 0), (SIGTERM, Cleanup 0),
      (UncaughtException, Cleanup 0), (UnhandledRejection, Cleanup 0)]" by code_simp
  have 3: "clisteners (some_session started_events) = [[Cleanup 0]]" by code_simp
  have 4: "plisteners (async_cleanup 0 (some_session started_events)) =
     [(SIGINT, HandleSessionStop), (SIGTERM, HandleSessionStop)]" by code_simp
  have 5: "clisteners (async_cleanup 0 (some_session started_events)) = [[]]" by code_simp
  have w: "(0::nat) < length (workers (some_session started_events))" using 1 by simp
  from cleanup_detaches_listeners [OF some_session_def w,
      of "[WorkerEnded 0 None, WorkerCreated True (Some some_config) (Inr [True])]"]
  show ?thesis using 1 2 3 4 5 by simp
qed

lemma reacts_simps [simp]:
  "reacts (emit_effect e st) = reacts st" "reacts (suspend t st) = reacts st"
  "reacts (worker_upd w (\<lambda>r. r\<lparr>w_status := s\<rparr>) st) = reacts st"
  "reacts (st\<lparr>tasks := v1\<rparr>) = reacts st" "reacts (st\<lparr>runningServer := v2\<rparr>) = reacts st"
  "reacts (st\<lparr>watching := v3\<rparr>) = reacts st" "reacts (st\<lparr>config := v4\<rparr>) = reacts st"
  "reacts (st\<lparr>diskConfig := v5\<rparr>) = reacts st" "reacts (st\<lparr>diskFeatures := v6\<rparr>) = reacts st"
  "reacts (child_upd c f st) = reacts st"
  "reacts (async_cleanup w st) = reacts st"
  "reacts (snd (createRouterWorker fc shape st)) = reacts st @ [prebundled fc]"
proof -
  show "reacts (async_cleanup w st) = reacts st"
    by (subst async_cleanup_shape) (simp add: reacts_def map_update list_update_same_conv)
  show "reacts (snd (createRouterWorker fc shape st)) = reacts st @ [prebundled fc]"
    by (subst createRouterWorker_shape) (simp add: reacts_def new_worker_def prebundled_def)
qed (simp_all add: reacts_def emit_effect_def suspend_def worker_upd_def child_upd_def map_update
       list_update_same_conv)

lemma live_fields [simp]:
  "config (emit_effect e st) = config st" "config (suspend t st) = config st"
  "config (worker_upd w f st) = config st" "config (child_upd c g st) = config st"
  "config (async_cleanup w st) = config st"
  "config (snd (createRouterWorker fc shape st)) = config st"
  "exited (emit_effect e st) = exited st" "exited (suspend t st) = exited st"
  "exited (worker_upd w f st) = exited st" "exited (child_upd c g st) = exited st"
  "exited (async_cleanup w st) = exited st"
  "exited (snd (createRouterWorker fc shape st)) = exited st"
  "ptasks (child_upd c g st) = ptasks st" "plog (child_upd c g st) = plog st"
  "watching (child_upd c g st) = watching st"
  "devServerOptions (child_upd c g st) = devServerOptions st"
proof -
  show "config (async_cleanup w st) = config st" by (subst async_cleanup_shape) simp
  show "exited (async_cleanup w st) = exited st" by (subst async_cleanup_shape) simp
  show "config (snd (createRouterWorker fc shape st)) = config st"
    by (subst createRouterWorker_shape) simp
  show "exited (snd (createRouterWorker fc shape st)) = exited st"
    by (subst createRouterWorker_shape) simp
qed (simp_all add: emit_effect_def suspend_def worker_upd_def child_upd_def ptasks_def plog_def)

lemma made_from_kept:
  assumes "kept st st'" and "made_from c d st"
  shows "made_from c d st'"
proof -
  have "plog st' = plog st" using assms(1) by (simp add: kept_def plog_def)
  then show ?thesis using assms(2) kept_fields(1) [OF assms(1)] by (simp add: made_from_def reacts_def)
qed

lemma live_with_kept:
  assumes "kept st st'" and "live_with c d st"
  shows "live_with c d st'"
proof -
  have "ptasks st' = ptasks st" using assms(1) by (simp add: kept_def ptasks_def)
  then show ?thesis
    using assms(2) kept_fields(5,7) [OF assms(1)] by (simp add: live_with_def)
qed

lemma post_kept:
  assumes "kept st st'" and "post c d st" and "exited st = None"
  shows "post c d st'"
  using assms made_from_kept live_with_kept unfolding post_def by blast

lemma post_dead:
  assumes "kept st st'" and "post c d st" and "exited st' \<noteq> None"
  shows "post c d st'"
  using assms made_from_kept unfolding post_def by blast

lemma before_load_kept:
  assumes "kept st st'" and "before_load st"
  shows "before_load st'"
proof -
  have "ptasks st' = ptasks st" "plog st' = plog st"
    using assms(1) by (simp_all add: kept_def ptasks_def plog_def)
  then show ?thesis
    using assms(2) kept_fields(1,4) [OF assms(1)] by (simp add: before_load_def)
qed

lemma pre_kept:
  assumes "kept st st'" and "pre st"
  shows "pre st'"
proof -
  have "ptasks st' = ptasks st" using assms(1) by (simp add: kept_def ptasks_def)
  then show ?thesis using assms before_load_kept by (simp add: pre_def dev_pending_def)
qed

lemma post_run_failed: "post c d st \<Longrightarrow> post c d (run_failed x e st)"
proof -
  assume p: "post c d st"
  have k: "kept st (run_failed x e st)"
    unfolding run_failed_def using kept_trans [OF kept_emit kept_process_exit] by simp
  have "exited (run_failed x e st) \<noteq> None" by (simp add: run_failed_def exited_process_exit)
  then show ?thesis using post_dead [OF k p] by simp
qed

lemma post_take: "post c d st \<Longrightarrow> post c d (st\<lparr>tasks := remove1 t (tasks st)\<rparr>)"
proof -
  assume p: "post c d st"
  let ?s = "st\<lparr>tasks := remove1 t (tasks st)\<rparr>"
  have s: "u \<in> set (ptasks ?s) \<Longrightarrow> u \<in> set (ptasks st)" for u
    using set_remove1_subset [of t "tasks st"] by (auto simp: ptasks_def)
  have "made_from c d ?s" using p by (simp add: post_def made_from_def)
  moreover have "live_with c d ?s" if "live_with c d st"
    using that s unfolding live_with_def by auto
  ultimately show ?thesis using p by (simp add: post_def)
qed

lemma post_runDevServer:
  assumes "post c d st"
  shows "post c d (runDevServer r st)"
  using assms by (simp add: post_def made_from_def live_with_def runDevServer_def)

lemma post_live: "post c d st \<Longrightarrow> exited st = None \<Longrightarrow> live_with c d st"
  by (simp add: post_def)

lemma post_start_server:
  assumes "post c d st" and "exited st = None"
    and "base_options opts = base_options (devServerOptions st)"
  shows "post c d (start_server r w opts st)"
  using assms by (auto simp: post_def made_from_def live_with_def start_server_def)

lemma post_emit:
  assumes "post c d st" and "\<not> is_start_call e"
  shows "post c d (emit_effect e st)"
proof -
  have "start_ok d e" using assms(2) by (cases e) simp_all
  then have "\<forall>e' \<in> set (plog (emit_effect e st)). start_ok d e'"
    using assms(1) by (cases "listener_effect e") (simp_all add: post_def made_from_def)
  then show ?thesis using assms(1) by (simp add: post_def made_from_def live_with_def)
qed

lemma post_suspend:
  assumes "post c d st" and "create_ok c t" and "t \<noteq> DevAwaitLoadConfig" and "t \<noteq> DevAwaitFileExists"
    and "t \<noteq> StopAwaitLoadConfig"
  shows "post c d (suspend t st)"
  using assms by (simp add: post_def made_from_def live_with_def)

lemma post_status:
  assumes "post c d st"
  shows "post c d (worker_upd w (\<lambda>r. r\<lparr>w_status := s\<rparr>) st)"
  using assms by (simp add: post_def made_from_def live_with_def)

lemma base_options_idem [simp]:
  "base_options (opts\<lparr>so_selfSignedCertificate := v\<rparr>) = base_options opts"
  by (simp add: base_options_def)

lemma post_run_after_create:
  assumes "post c d st" and "exited st = None"
  shows "post c d (run_after_create x r w st)"
proof (cases "arg_https (nd_args st) = Some True")
  case False
  then show ?thesis using post_start_server [OF assms] by (simp add: run_after_create_def)
next
  case True
  let ?s1 = "emit_effect (LogWarn https_warning) st"
  have p1: "post c d ?s1" using post_emit [OF assms(1)] by simp
  have e1: "exited ?s1 = None" using assms(2) by simp
  show ?thesis
  proof (cases "explicit_paths (nd_args st)")
    case None
    have "post c d (suspend (RunAwaitCert r w)
                     (emit_effect (CreateSelfSignedCertificate (nd_host st)) ?s1))"
      by (intro post_suspend post_emit p1) simp_all
    then show ?thesis using True None by (simp add: run_after_create_def)
  next
    case (Some kc)
    have "post c d (start_server r w ((devServerOptions st)\<lparr>so_selfSignedCertificate := v\<rparr>) ?s1)" for v
      by (rule post_start_server [OF p1 e1]) simp
    then show ?thesis using True Some by (simp add: run_after_create_def split: prod.splits)
  qed
qed

lemma post_createRouterWorker:
  assumes "post c d st"
  shows "post c d (snd (createRouterWorker c shape st))"
  using assms by (simp add: post_def made_from_def live_with_def)

lemma post_worker_created:
  assumes "post c d st" and "exited st = None" and "cfg = Some c \<or> cfg = None"
  shows "post c d (worker_created x r cfg oc st)"
proof (cases oc)
  case (Inl e)
  then show ?thesis using post_run_failed [OF assms(1)] by (simp add: worker_created_def)
next
  case (Inr shape)
  show ?thesis
  proof (cases cfg)
    case None
    then show ?thesis using Inr post_run_failed [OF assms(1)] by (simp add: worker_created_def)
  next
    case (Some fc)
    then have fc: "fc = c" using assms(3) by simp
    have "post c d (run_after_create x r (fst (createRouterWorker c shape st))
                      (snd (createRouterWorker c shape st)))"
      by (rule post_run_after_create [OF post_createRouterWorker [OF assms(1)]])
         (simp add: assms(2))
    then show ?thesis using Inr Some fc by (simp add: worker_created_def case_prod_beta)
  qed
qed

lemma post_cert_created:
  assumes "post c d st" and "exited st = None"
  shows "post c d (cert_created x r w oc st)"
proof (cases oc)
  case (Inl e)
  then show ?thesis using post_run_failed [OF assms(1)] by (simp add: cert_created_def)
next
  case (Inr v)
  have "post c d (start_server r w ((devServerOptions st)\<lparr>so_selfSignedCertificate := v\<rparr>) st)"
    by (rule post_start_server [OF assms]) simp
  then show ?thesis using Inr by (simp add: cert_created_def)
qed

lemma post_server_started:
  assumes "post c d st"
  shows "post c d (server_started x r w oc st)"
proof (cases oc)
  case (Some e)
  then show ?thesis using post_run_failed [OF assms] by (simp add: server_started_def)
next
  case None
  have "post c d (suspend (RunAwaitPreflight r w)
            (emit_effect (PreflightCall r) (worker_upd w (\<lambda>r. r\<lparr>w_status := Serving\<rparr>) st)))"
    by (intro post_suspend post_emit post_status assms) simp_all
  then show ?thesis using None by (simp add: server_started_def)
qed

lemma post_preflight_done:
  assumes "post c d st"
  shows "post c d (preflight_done x r w oc st)"
proof (cases oc)
  case (Some e)
  then show ?thesis using post_run_failed [OF assms] by (simp add: preflight_done_def)
next
  case None
  then show ?thesis
    using assms by (simp add: preflight_done_def post_def made_from_def live_with_def)
qed

lemma post_worker_ended:
  assumes "post c d st"
  shows "post c d (worker_ended x w oc st)"
proof (cases oc)
  case (Some e)
  then show ?thesis using post_run_failed [OF assms] by (simp add: worker_ended_def)
next
  case None
  then show ?thesis
    using post_runDevServer [OF post_status [OF assms]] by (simp add: worker_ended_def)
qed

lemma post_async_cleanup:
  assumes "post c d st"
  shows "post c d (async_cleanup w st)"
  using assms by (simp add: post_def made_from_def live_with_def)

lemma post_restart:
  assumes "post c d st"
  shows "post c d (restart st)"
proof (cases "runningServer st")
  case None
  then show ?thesis using post_runDevServer [OF assms] by (simp add: restart_def)
next
  case (Some w)
  have "post c d (suspend (RestartAwaitCleanup w) (async_cleanup w st))"
    by (intro post_suspend post_async_cleanup assms) simp_all
  then show ?thesis using Some by (simp add: restart_def)
qed

lemma post_on_config_change:
  assumes "post c d st"
  shows "post c d (on_config_change x filename st)"
proof -
  have 1: "post c d (emit_effect (LogInfo m) st)" for m using post_emit [OF assms] by simp
  have 2: "post c d (emit_effect (LogWarn m) (emit_effect (LogWarn []) st))" for m
    by (intro post_emit assms) simp_all
  show ?thesis using 1 post_restart [OF 2] by (simp add: on_config_change_def)
qed

lemma post_dev_start:
  assumes "post c d st"
  shows "post c d (dev_start st)"
proof -
  have "post c d (st\<lparr>watching := True\<rparr>)"
    using assms by (simp add: post_def made_from_def live_with_def)
  then show ?thesis using post_runDevServer by (simp add: dev_start_def)
qed

lemma post_turbo_validated:
  assumes "post c d st"
  shows "post c d (turbo_validated x oc st)"
proof (cases oc)
  case (Some e)
  then show ?thesis using post_emit [OF assms, of "NextDevRejected e"] by (simp add: turbo_validated_def)
next
  case None
  then show ?thesis using post_dev_start [OF assms] by (simp add: turbo_validated_def)
qed

lemma listener_is_cleanup:
  assumes "signal_only st" and "l \<in> set (listeners_of ev st)" and "ev \<noteq> SIGINT" and "ev \<noteq> SIGTERM"
  shows "\<exists>w. l = Cleanup w"
proof -
  have "(ev, l) \<in> set (plisteners st)" using assms(2) by (auto simp: listeners_of_def)
  then have "l \<noteq> HandleSessionStop" using assms(1,3,4) unfolding signal_only_def by fastforce
  then show ?thesis by (cases l) simp_all
qed

lemma dispatch_listeners_exits:
  assumes "signal_only st" and "listeners_of ev st \<noteq> []" and "ev \<noteq> SIGINT" and "ev \<noteq> SIGTERM"
    and "exited st = None"
  shows "exited (dispatch (process_exit x) x (listeners_of ev st) st) \<noteq> None"
proof -
  obtain l where l: "l \<in> set (listeners_of ev st)" using assms(2) by (cases "listeners_of ev st") auto
  then obtain w where "l = Cleanup w" using listener_is_cleanup [OF assms(1) l assms(3,4)] by blast
  then show ?thesis using dispatch_cleanup_zero [of w "listeners_of ev st" st x] l assms(5) by simp
qed

lemma handle_rejection_exits:
  assumes "signal_only st" and "exited st = None"
  shows "exited (handle_rejection x e st) \<noteq> None"
proof -
  let ?s1 = "emit_effect (UnhandledRejectionOf e) st"
  have s: "signal_only ?s1" and a: "exited ?s1 = None"
    using assms by (simp_all add: signal_only_def emit_effect_def)
  show ?thesis
    unfolding handle_rejection_def Let_def
    using dispatch_listeners_exits [OF s _ _ _ a, of UnhandledRejection x]
      dispatch_listeners_exits [OF s _ _ _ a, of UncaughtException x]
      exited_process_exit
    by simp
qed

lemma fold_rejections_exits:
  assumes "signal_only st" and "rs \<noteq> []"
  shows "exited (fold (\<lambda>e s. if exited s = None then handle_rejection x e s else s) rs st) \<noteq> None"
proof -
  obtain e rs' where rs: "rs = e # rs'" using assms(2) by (cases rs) auto
  let ?s = "if exited st = None then handle_rejection x e st else st"
  have "exited ?s \<noteq> None" using handle_rejection_exits [OF assms(1)] by simp
  then obtain k where k: "exited ?s = Some k" by blast
  let ?H = "\<lambda>e s. if exited s = None then handle_rejection x e s else s"
  have "fold ?H rs st = fold ?H rs' ?s" by (simp add: rs)
  also have "\<dots> = ?s" using fold_dead [OF k] .
  finally have "exited (fold ?H rs st) = Some k" using k by simp
  then show ?thesis by simp
qed

lemma drain_exits:
  assumes "signal_only st" and "rejections st \<noteq> []"
  shows "exited (drain_rejections x st) \<noteq> None"
proof -
  have "signal_only (st\<lparr>rejections := []\<rparr>)" using assms(1) by (simp add: signal_only_def)
  then show ?thesis unfolding drain_rejections_def using fold_rejections_exits assms(2) by blast
qed

lemma stop_finish_exits:
  assumes "signal_only st"
  shows "exited (drain_rejections x (stop_finish (process_exit x) x st)) \<noteq> None"
proof (cases "upload_trace_step x st")
  case (Inl e)
  have "signal_only (reject e st)" "rejections (reject e st) \<noteq> []"
    using assms by (simp_all add: signal_only_def reject_def)
  then show ?thesis using Inl drain_exits by (simp add: stop_finish_def)
next
  case (Inr s1)
  obtain k where "exited (process_exit x 0 (restore_cursor s1)) = Some k"
    using exited_process_exit by blast
  then show ?thesis using Inr exited_drain_rejections by (simp add: stop_finish_def)
qed

lemma signal_only_kept: "kept st st' \<Longrightarrow> signal_only st \<Longrightarrow> signal_only st'"
  using kept_fields(2) by (simp add: signal_only_def)

lemma stop_config_loaded_exits:
  assumes "signal_only st"
  shows "exited (drain_rejections x (stop_config_loaded (process_exit x) x oc st)) \<noteq> None"
proof (cases oc)
  case (Some e)
  then show ?thesis using stop_finish_exits [OF assms] by (simp add: stop_config_loaded_def)
next
  case None
  let ?s = "stop_telemetry x (diskConfig st) (st\<lparr>config := Some (diskConfig st)\<rparr>)"
  have "signal_only (st\<lparr>config := Some (diskConfig st)\<rparr>)" using assms by (simp add: signal_only_def)
  then have "signal_only ?s" using signal_only_kept [OF kept_stop_telemetry] by blast
  then show ?thesis using None stop_finish_exits by (simp add: stop_config_loaded_def Let_def)
qed

lemma made_from_stop_config_loaded:
  assumes "made_from c d st"
  shows "made_from c d (stop_config_loaded (process_exit x) x oc st)"
proof -
  have f: "kept s (stop_finish (process_exit x) x s)" for s
    using kept_stop_finish [of "process_exit x", OF kept_process_exit] .
  have m: "made_from c d (st\<lparr>config := v\<rparr>)" for v using assms by (simp add: made_from_def)
  have "made_from c d (stop_finish (process_exit x) x (stop_telemetry x c' (st\<lparr>config := v\<rparr>)))" for c' v
    using made_from_kept [OF kept_trans [OF kept_stop_telemetry f] m] .
  then show ?thesis
    using made_from_kept [OF f assms]
    by (simp add: stop_config_loaded_def Let_def split: option.splits)
qed

lemma post_drain:
  assumes "post c d st"
  shows "post c d (drain_rejections x st)"
proof (cases "exited st")
  case None
  then show ?thesis using post_kept [OF kept_drain_rejections assms] by simp
next
  case (Some k)
  then show ?thesis using post_dead [OF kept_drain_rejections assms] exited_drain_rejections by simp
qed

lemma post_dispatch:
  assumes "post c d st" and "exited st = None"
  shows "post c d (dispatch (process_exit x) x ls st)"
  by (rule post_kept [OF _ assms], rule kept_dispatch) (rule kept_process_exit)

lemma post_step:
  assumes s: "signal_only st" and p: "post c d st"
  shows "post c d (step x ev st)"
proof (cases "exited st")
  case (Some k)
  then show ?thesis using p by (simp add: step_def)
next
  case None
  let ?take = "\<lambda>t. st\<lparr>tasks := remove1 t (tasks st)\<rparr>"
  have tk: "post c d (?take t)" and tl: "exited (?take t) = None" for t
    using post_take [OF p] None by simp_all
  have res: "post c d (resume t k st)" if "\<And>s. post c d s \<Longrightarrow> exited s = None \<Longrightarrow> post c d (k s)" for t k
    using that [OF tk tl] p by (simp add: resume_def)
  have "post c d (drain_rejections x (react x ev st))"
  proof (cases ev)
    case (Signal sg)
    have "post c d (reallyExit k st)" for k using post_kept [OF kept_reallyExit p None] .
    then show ?thesis using Signal post_dispatch [OF p None] post_drain by simp
  next
    case (ConfigChange filename c' fs)
    let ?s1 = "st\<lparr>diskConfig := c', diskFeatures := fs\<rparr>"
    have "post c d ?s1" using p by (simp add: post_def made_from_def live_with_def)
    then show ?thesis using ConfigChange post_on_config_change post_drain by (simp add: Let_def)
  next
    case (ChildExit ch)
    have "post c d (child_upd ch (\<lambda>r. r\<lparr>c_exited := True\<rparr>) st)"
      using p by (simp add: post_def made_from_def live_with_def)
    then have "post c d (dispatch (process_exit x) x ls (child_upd ch (\<lambda>r. r\<lparr>c_exited := True\<rparr>) st))" for ls
      by (rule post_dispatch) (simp add: None)
    then show ?thesis using ChildExit p post_drain by simp
  next
    case (DirChecked found)
    have "DevAwaitFileExists \<notin> set (tasks st)"
      using post_live [OF p None] in_ptasks [of DevAwaitFileExists st] by (auto simp: live_with_def)
    then show ?thesis using DirChecked p post_drain by (simp add: resume_def)
  next
    case (DevConfigLoaded oc)
    have "DevAwaitLoadConfig \<notin> set (tasks st)"
      using post_live [OF p None] in_ptasks [of DevAwaitLoadConfig st] by (auto simp: live_with_def)
    then show ?thesis using DevConfigLoaded p post_drain by (simp add: resume_def)
  next
    case (TurboValidated oc)
    then show ?thesis using res [of "turbo_validated x oc"] post_turbo_validated post_drain by simp
  next
    case (StopConfigLoaded oc)
    show ?thesis
    proof (cases "StopAwaitLoadConfig \<in> set (tasks st)")
      case False
      then show ?thesis using StopConfigLoaded p post_drain by (simp add: resume_def)
    next
      case True
      let ?r = "stop_config_loaded (process_exit x) x oc (?take StopAwaitLoadConfig)"
      have "signal_only (?take StopAwaitLoadConfig)" using s by (simp add: signal_only_def)
      then have "exited (drain_rejections x ?r) \<noteq> None" by (rule stop_config_loaded_exits)
      then obtain k where e: "exited (drain_rejections x ?r) = Some k" by blast
      have "made_from c d (?take StopAwaitLoadConfig)" using tk by (simp add: post_def)
      then have "made_from c d ?r" by (rule made_from_stop_config_loaded)
      then have "made_from c d (drain_rejections x ?r)"
        using made_from_kept [OF kept_drain_rejections] by blast
      then show ?thesis using e StopConfigLoaded True by (simp add: resume_def post_def)
    qed
  next
    case (WorkerCreated r cfg oc)
    show ?thesis
    proof (cases "RunAwaitCreate r cfg \<in> set (tasks st)")
      case False
      then show ?thesis using WorkerCreated p post_drain by (simp add: resume_def)
    next
      case True
      then have "create_ok c (RunAwaitCreate r cfg)"
        using post_live [OF p None] in_ptasks [OF True] unfolding live_with_def by blast
      then have "post c d (worker_created x r cfg oc (?take (RunAwaitCreate r cfg)))"
        by (intro post_worker_created tk tl) simp
      then show ?thesis using WorkerCreated True post_drain by (simp add: resume_def)
    qed
  next
    case (CertCreated r w oc)
    then show ?thesis using res [of "cert_created x r w oc"] post_cert_created post_drain by simp
  next
    case (ServerStarted r w oc)
    then show ?thesis using res [of "server_started x r w oc"] post_server_started post_drain by simp
  next
    case (PreflightDone r w oc)
    then show ?thesis using res [of "preflight_done x r w oc"] post_preflight_done post_drain by simp
  next
    case (WorkerEnded w oc)
    then show ?thesis using res [of "worker_ended x w oc"] post_worker_ended post_drain by simp
  qed
  then show ?thesis using None by (simp add: step_def)
qed

lemma workers_simps [simp]:
  "workers (emit_effect e st) = workers st" "workers (suspend t st) = workers st"
  by (simp_all add: emit_effect_def suspend_def)

lemma count_list_remove1_le: "count_list (remove1 t xs) u \<le> count_list xs u"
  by (simp add: count_list_remove1_any del: count_list_remove1)

lemma pre_take: "pre st \<Longrightarrow> pre (st\<lparr>tasks := remove1 t (tasks st)\<rparr>)"
proof -
  assume p: "pre st"
  let ?s = "st\<lparr>tasks := remove1 t (tasks st)\<rparr>"
  have s: "u \<in> set (ptasks ?s) \<Longrightarrow> u \<in> set (ptasks st)" for u
    using set_remove1_subset [of t "tasks st"] by (auto simp: ptasks_def)
  have c: "count_list (ptasks ?s) u \<le> count_list (ptasks st) u" for u
  proof (cases "t = StopAwaitLoadConfig")
    case True
    then have "ptasks ?s = ptasks st"
      by (simp add: ptasks_def filter_remove1_other)
    then show ?thesis by simp
  next
    case False
    then show ?thesis by (simp add: ptasks_take count_list_remove1_le)
  qed
  have "before_load ?s" using p s unfolding pre_def before_load_def by auto
  moreover have "dev_pending ?s \<le> 1"
    using p c [of DevAwaitFileExists] c [of DevAwaitLoadConfig] by (simp add: pre_def dev_pending_def)
  ultimately show ?thesis by (simp add: pre_def)
qed

lemma pre_take_dev:
  assumes "pre st" and "t \<in> set (tasks st)" and "t = DevAwaitFileExists \<or> t = DevAwaitLoadConfig"
  shows "before_load (st\<lparr>tasks := remove1 t (tasks st)\<rparr>) \<and>
         dev_pending (st\<lparr>tasks := remove1 t (tasks st)\<rparr>) = 0"
proof -
  have n: "t \<noteq> StopAwaitLoadConfig" using assms(3) by auto
  have "t \<in> set (ptasks st)" using in_ptasks [OF assms(2) n] .
  then have "count_list (ptasks st) t \<noteq> 0" by (simp add: count_list_0_iff)
  then have "dev_pending (st\<lparr>tasks := remove1 t (tasks st)\<rparr>) = 0"
    using assms(1,3) n
    by (auto simp: pre_def dev_pending_def ptasks_take count_list_remove1_any
          simp del: count_list_remove1)
  then show ?thesis using pre_take [OF assms(1), of t] by (simp add: pre_def)
qed

lemma pre_dev_dir_checked:
  assumes "before_load st" and "dev_pending st = 0"
  shows "pre (dev_dir_checked x found st)"
proof (cases found)
  case False
  let ?m = "''> No such directory exists as the project root: '' @
              (case dir st of None \<Rightarrow> ''undefined'' | Some d \<Rightarrow> d)"
  have "kept st (process_exit x 1 (emit_effect (ConsoleError ?m) st))"
    using kept_trans [OF kept_emit kept_process_exit] by simp
  moreover have "pre st" using assms by (simp add: pre_def)
  ultimately show ?thesis using False pre_kept by (simp add: dev_dir_checked_def)
next
  case True
  then show ?thesis
    using assms by (simp add: dev_dir_checked_def pre_def before_load_def dev_pending_def)
qed

lemma pre_dev_config_rejected:
  assumes "before_load st" and "dev_pending st = 0"
  shows "pre (dev_config_loaded x (Some e) st)"
  using assms by (simp add: dev_config_loaded_def pre_def before_load_def dev_pending_def)

lemma post_dev_config_loaded:
  assumes "before_load st" and "dev_pending st = 0"
  shows "post (diskConfig st) (base_options (devServerOptions (dev_config_loaded x None st)))
           (dev_config_loaded x None st)"
proof -
  have n: "DevAwaitFileExists \<notin> set (ptasks st)" "DevAwaitLoadConfig \<notin> set (ptasks st)"
    using assms(2) by (simp_all add: dev_pending_def count_list_0_iff)
  have r: "\<forall>t \<in> set (ptasks st). create_ok c t" for c
  proof
    fix t assume "t \<in> set (ptasks st)"
    then have "\<not> is_run_task t" using assms(1) by (simp add: before_load_def)
    then show "create_ok c t" by (cases t) simp_all
  qed
  have l: "\<forall>e \<in> set (plog st). start_ok d e" for d
  proof
    fix e assume "e \<in> set (plog st)"
    then have "\<not> is_start_call e" using assms(1) by (simp add: before_load_def)
    then show "start_ok d e" by (cases e) simp_all
  qed
  have w: "workers st = []" using assms(1) by (simp add: before_load_def)
  show ?thesis
    using n r l w
    by (simp add: dev_config_loaded_def Let_def dev_start_def runDevServer_def post_def
          made_from_def live_with_def reacts_def)
qed

lemma pre_stop_config_loaded:
  assumes "pre st"
  shows "pre (stop_config_loaded (process_exit x) x oc st)"
proof -
  have f: "kept s (stop_finish (process_exit x) x s)" for s
    using kept_stop_finish [of "process_exit x", OF kept_process_exit] .
  have m: "pre (st\<lparr>config := v\<rparr>)" for v
    using assms by (simp add: pre_def before_load_def dev_pending_def)
  have "pre (stop_finish (process_exit x) x (stop_telemetry x c' (st\<lparr>config := v\<rparr>)))" for c' v
    using pre_kept [OF kept_trans [OF kept_stop_telemetry f] m] .
  then show ?thesis
    using pre_kept [OF f assms]
    by (simp add: stop_config_loaded_def Let_def split: option.splits)
qed

lemma pre_no_run_task:
  assumes "pre st" and "is_run_task t"
  shows "t \<notin> set (tasks st)"
proof
  assume i: "t \<in> set (tasks st)"
  have "t \<noteq> StopAwaitLoadConfig" using assms(2) by auto
  then show False using in_ptasks [OF i] assms by (auto simp: pre_def before_load_def)
qed

text \<open>One turn of the event loop before the configuration is loaded.\<close>

lemma pre_step:
  assumes p: "pre st"
  shows "pre (step x ev st) \<or> (\<exists>c d. post c d (step x ev st))"
proof (cases "exited st")
  case (Some k)
  then show ?thesis using p by (simp add: step_def)
next
  case None
  let ?take = "\<lambda>t. st\<lparr>tasks := remove1 t (tasks st)\<rparr>"
  have dr: "pre s \<Longrightarrow> pre (drain_rejections x s)" for s
    using pre_kept [OF kept_drain_rejections] .
  have idle: "pre (drain_rejections x st)" using dr [OF p] .
  have "pre (drain_rejections x (react x ev st)) \<or> (\<exists>c d. post c d (drain_rejections x (react x ev st)))"
  proof (cases ev)
    case (Signal sg)
    have "kept st (dispatch (process_exit x) x ls st)" for ls
      by (rule kept_dispatch) (rule kept_process_exit)
    then have "pre (dispatch (process_exit x) x ls st)" "pre (reallyExit k st)" for ls k
      using pre_kept p kept_reallyExit by blast+
    then show ?thesis using Signal dr by simp
  next
    case (ConfigChange filename c' fs)
    have "\<not> watching st" using p by (simp add: pre_def before_load_def)
    moreover have "pre (st\<lparr>diskConfig := c', diskFeatures := fs\<rparr>)"
      using p by (simp add: pre_def before_load_def dev_pending_def)
    ultimately show ?thesis using ConfigChange dr by (simp add: Let_def)
  next
    case (ChildExit ch)
    have "kept s (dispatch (process_exit x) x ls s)" for ls s
      by (rule kept_dispatch) (rule kept_process_exit)
    moreover have "pre (child_upd ch (\<lambda>r. r\<lparr>c_exited := True\<rparr>) st)"
      using p by (simp add: pre_def before_load_def dev_pending_def child_upd_def)
    ultimately have "pre (dispatch (process_exit x) x ls (child_upd ch (\<lambda>r. r\<lparr>c_exited := True\<rparr>) st))" for ls
      using pre_kept by blast
    then show ?thesis using ChildExit idle dr by simp
  next
    case (DirChecked found)
    show ?thesis
    proof (cases "DevAwaitFileExists \<in> set (tasks st)")
      case False
      then show ?thesis using DirChecked idle by (simp add: resume_def)
    next
      case True
      have "pre (dev_dir_checked x found (?take DevAwaitFileExists))"
        using pre_take_dev [OF p True] pre_dev_dir_checked by simp
      then show ?thesis using DirChecked True dr by (simp add: resume_def)
    qed
  next
    case (DevConfigLoaded oc)
    show ?thesis
    proof (cases "DevAwaitLoadConfig \<in> set (tasks st)")
      case False
      then show ?thesis using DevConfigLoaded idle by (simp add: resume_def)
    next
      case True
      note t = pre_take_dev [OF p True]
      show ?thesis
      proof (cases oc)
        case (Some e)
        have "pre (dev_config_loaded x (Some e) (?take DevAwaitLoadConfig))"
          using t pre_dev_config_rejected by simp
        then show ?thesis using DevConfigLoaded True Some dr by (simp add: resume_def)
      next
        case None
        have "\<exists>c d. post c d (dev_config_loaded x None (?take DevAwaitLoadConfig))"
          using t post_dev_config_loaded by blast
        then have "\<exists>c d. post c d (drain_rejections x (dev_config_loaded x None (?take DevAwaitLoadConfig)))"
          using post_drain by blast
        then show ?thesis using DevConfigLoaded True None by (simp add: resume_def)
      qed
    qed
  next
    case (TurboValidated oc)
    have "DevAwaitTurbo \<notin> set (tasks st)"
      using p in_ptasks [of DevAwaitTurbo st] by (auto simp: pre_def before_load_def)
    then show ?thesis using TurboValidated idle by (simp add: resume_def)
  next
    case (StopConfigLoaded oc)
    have "pre (stop_config_loaded (process_exit x) x oc (?take StopAwaitLoadConfig))"
      using pre_stop_config_loaded [OF pre_take [OF p]] .
    then show ?thesis using StopConfigLoaded idle dr by (simp add: resume_def)
  next
    case (WorkerCreated r cfg oc)
    then show ?thesis using pre_no_run_task [OF p, of "RunAwaitCreate r cfg"] idle by (simp add: resume_def)
  next
    case (CertCreated r w oc)
    then show ?thesis using pre_no_run_task [OF p, of "RunAwaitCert r w"] idle by (simp add: resume_def)
  next
    case (ServerStarted r w oc)
    then show ?thesis using pre_no_run_task [OF p, of "RunAwaitStart r w"] idle by (simp add: resume_def)
  next
    case (PreflightDone r w oc)
    then show ?thesis using pre_no_run_task [OF p, of "RunAwaitPreflight r w"] idle by (simp add: resume_def)
  next
    case (WorkerEnded w oc)
    then show ?thesis using pre_no_run_task [OF p, of "RestartAwaitCleanup w"] idle by (simp add: resume_def)
  qed
  then show ?thesis using None by (simp add: step_def)
qed

lemma signal_only_run: "signal_only st \<Longrightarrow> signal_only (run x evs st)"
proof (rule listeners_run [of signal_only])
  show "signal_only s'" if "same_listeners s s'" "signal_only s" for s s'
    using that by (simp add: same_listeners_def signal_only_def)
  show "signal_only (snd (createRouterWorker fc shape s))" if "signal_only s" for fc shape s
    using that by (auto simp: signal_only_def plisteners_create worker_listeners_def)
  show "signal_only (async_cleanup w s)" if "signal_only s" for w s
  proof -
    have "set (fold (\<lambda>e. remove_last (e, Cleanup w)) es xs) \<subseteq> set xs"
      for es :: "pevent list" and xs
    proof (induction es arbitrary: xs)
      case Nil
      show ?case by simp
    next
      case (Cons e es)
      show ?case using Cons [of "remove_last (e, Cleanup w) xs"] set_remove_last [of "(e, Cleanup w)" xs]
        by auto
    qed
    then show ?thesis using that unfolding signal_only_def plisteners_async_cleanup by blast
  qed
qed

lemma stage_run:
  assumes "signal_only st" and "pre st \<or> (\<exists>c d. post c d st)"
  shows "pre (run x evs st) \<or> (\<exists>c d. post c d (run x evs st))"
  using assms
proof (induction evs arbitrary: st)
  case Nil
  then show ?case by (simp add: run_def)
next
  case (Cons ev evs)
  have s: "signal_only (step x ev st)"
    using signal_only_run [OF Cons.prems(1), of x "[ev]"] by (simp add: run_def)
  have "pre (step x ev st) \<or> (\<exists>c d. post c d (step x ev st))"
    using Cons.prems(2) pre_step post_step [OF Cons.prems(1)] by blast
  then show ?case using Cons.IH [OF s] by (simp add: run_def)
qed

lemma stage_session:
  "pre (session x a now env disk feats evs) \<or> (\<exists>c d. post c d (session x a now env disk feats evs))"
proof -
  let ?m = "module_loaded now env disk feats"
  have m: "pre ?m"
    by (simp add: pre_def before_load_def dev_pending_def module_loaded_def ptasks_def plog_def)
  have sm: "signal_only ?m" by (simp add: signal_only_def module_loaded_def)
  have "pre (emit_effect (ConsoleLog (helpText x)) ?m)"
    by (simp add: pre_def before_load_def dev_pending_def module_loaded_def ptasks_def plog_def
          emit_effect_def)
  then have 1: "pre (process_exit x 0 (emit_effect (ConsoleLog (helpText x)) ?m))"
    using pre_kept [OF kept_process_exit] by blast
  have 2: "pre (suspend DevAwaitFileExists (?m\<lparr>nd_args := a, dir := v\<rparr>))" for v
    by (simp add: pre_def before_load_def dev_pending_def module_loaded_def ptasks_def plog_def
          suspend_def)
  have p: "pre (nextDev x a ?m)" using 1 2 by (simp add: nextDev_def)
  have s: "signal_only (nextDev x a ?m)"
  proof -
    have "signal_only (emit_effect (ConsoleLog (helpText x)) ?m)"
      using sm by (simp add: signal_only_def emit_effect_def)
    then have "signal_only (process_exit x 0 (emit_effect (ConsoleLog (helpText x)) ?m))"
      using signal_only_kept [OF kept_process_exit] by blast
    moreover have "signal_only (suspend DevAwaitFileExists (?m\<lparr>nd_args := a, dir := v\<rparr>))" for v
      using sm by (simp add: signal_only_def suspend_def)
    ultimately show ?thesis by (simp add: nextDev_def)
  qed
  show ?thesis unfolding session_def using stage_run [OF s] p by blast
qed

lemma made_from_workers:
  assumes "made_from c d st" and "w < length (workers st)"
  shows "w_prebundledReact (workers st ! w) = prebundled c"
proof -
  have "reacts st ! w \<in> set (reacts st)" using assms(2) by (simp add: reacts_def)
  then have "reacts st ! w = prebundled c" using assms(1) unfolding made_from_def by blast
  then show ?thesis using assms(2) by (simp add: reacts_def)
qed

lemma made_from_calls:
  assumes "made_from c d st" and "StartServerCall w opts \<in> set (effects st)"
  shows "base_options opts = d"
proof -
  have "StartServerCall w opts \<in> set (plog st)" using assms(2) by (simp add: plog_def)
  then have "start_ok d (StartServerCall w opts)" using assms(1) unfolding made_from_def by blast
  then show ?thesis by simp
qed

text \<open>
  C5, as the code has it. \<^verbatim>\<open>nextDev\<close> loads the configuration once, before the
  first start, and a restart does not load it again. In every session, whatever the
  configuration files hold when they change: all workers, the first one and the one
  of every restart, are created from one and the same configuration (they get the
  same \<^verbatim>\<open>__NEXT_PRIVATE_PREBUNDLED_REACT\<close>); all \<^verbatim>\<open>startServer\<close> calls carry
  the same options, the certificate apart; and as long as the process lives, that
  configuration is the value of the variable \<^verbatim>\<open>config\<close>.
\<close>

theorem restart_keeps_config_snapshot:
  assumes "st = session x a now env disk feats evs"
  shows "(w < length (workers st) \<and> w' < length (workers st) \<longrightarrow>
            w_prebundledReact (workers st ! w) = w_prebundledReact (workers st ! w')) \<and>
         (StartServerCall v opts \<in> set (effects st) \<and> StartServerCall v' opts' \<in> set (effects st) \<longrightarrow>
            base_options opts = base_options opts') \<and>
         (w < length (workers st) \<and> exited st = None \<longrightarrow>
            (\<exists>c. config st = Some c \<and> w_prebundledReact (workers st ! w) = prebundled c))"
proof -
  consider "pre st" | c d where "post c d st"
    using stage_session assms by blast
  then show ?thesis
  proof cases
    case 1
    then have "workers st = []" "\<forall>e \<in> set (plog st). \<not> is_start_call e"
      by (simp_all add: pre_def before_load_def)
    moreover have "StartServerCall u os \<in> set (effects st) \<Longrightarrow> StartServerCall u os \<in> set (plog st)" for u os
      by (simp add: plog_def)
    ultimately show ?thesis by fastforce
  next
    case 2
    then have m: "made_from c d st" and l: "exited st = None \<longrightarrow> config st = Some c"
      by (simp_all add: post_def live_with_def)
    show ?thesis
      using made_from_workers [OF m] made_from_calls [OF m] l by auto
  qed
qed

theorem restart_keeps_config_snapshot_witness:
  "length (workers (some_session restarted_events)) = 2 \<and>
   w_prebundledReact (workers (some_session restarted_events) ! 0) =
     w_prebundledReact (workers (some_session restarted_events) ! 1) \<and>
   StartServerCall 0 plain_options \<in> set (effects (some_session restarted_events)) \<and>
   StartServerCall 1 plain_options \<in> set (effects (some_session restarted_events)) \<and>
   exited (some_session restarted_events) = None \<and>
   config (some_session restarted_events) = Some some_config \<and>
   w_prebundledReact (workers (some_session restarted_events) ! 0) = prebundled some_config"
proof -
  have 1: "length (workers (some_session restarted_events)) = 2" by code_simp
  have 2: "StartServerCall 0 plain_options \<in> set (effects (some_session restarted_events))"
    by code_simp
  have 3: "StartServerCall 1 plain_options \<in> set (effects (some_session restarted_events))"
    by code_simp
  have 4: "exited (some_session restarted_events) = None" by code_simp
  have 5: "config (some_session restarted_events) = Some some_config" by code_simp
  from restart_keeps_config_snapshot [OF some_session_def, of 0 restarted_events 1 0 plain_options 1 plain_options]
  show ?thesis using 1 2 3 4 5 by auto
qed

text \<open>
  C5 as the specification words it does not hold. \<^verbatim>\<open>next.config.js\<close> changes to a
  configuration with \<^verbatim>\<open>experimental.serverActions\<close>; the restart awaits the
  cleanup and calls \<^verbatim>\<open>createRouterWorker\<close> with the configuration of the first
  start; the second worker gets \<^verbatim>\<open>next\<close> where the changed file gives
  \<^verbatim>\<open>experimental\<close>, its \<^verbatim>\<open>startServer\<close> call carries the options of the first
  start, and \<^verbatim>\<open>loadConfig\<close> has been called once in the whole session.
\<close>

theorem stale_config_counterexample:
  "tasks (some_session config_changed_events) = [RunAwaitCreate True (Some some_config)] \<and>
   diskConfig (some_session restarted_events) = actions_config \<and>
   diskFeatures (some_session restarted_events) = [''serverActions''] \<and>
   prebundled actions_config = ''experimental'' \<and>
   map w_prebundledReact (workers (some_session restarted_events)) = [''next'', ''next''] \<and>
   map w_status (workers (some_session restarted_events)) = [Ended, Serving] \<and>
   filter is_start_call (effects (some_session restarted_events)) =
     [StartServerCall 0 plain_options, StartServerCall 1 plain_options] \<and>
   so_expFeatureInfo plain_options = [] \<and>
   count_list (effects (some_session restarted_events)) LoadConfigCall = 1 \<and>
   config (some_session restarted_events) = Some some_config \<and>
   runningServer (some_session restarted_events) = Some 1 \<and>
   exited (some_session restarted_events) = None"
  by code_simp

text \<open>
  C3 on the code. The watcher callback finds \<^verbatim>\<open>runningServer\<close> undefined, awaits
  no cleanup and calls \<^verbatim>\<open>runDevServer(true)\<close>: \<^verbatim>\<open>startServer\<close> is called on a
  second worker while the first one is serving, \<^verbatim>\<open>worker.end()\<close> is never called,
  and in the end two workers are serving and \<^verbatim>\<open>runningServer\<close> holds the cleanup
  of the second one only.
\<close>

theorem change_during_start_overlaps:
  "runningServer (some_session (take 4 overlap_events)) = None \<and>
   map w_status (workers (some_session (take 4 overlap_events))) = [Serving] \<and>
   effects (some_session overlap_events) =
     [LoadConfigCall, WorkerNew 0, StartServerCall 0 plain_options, PreflightCall False,
      LogWarn [],
      LogWarn ''Found a change in next.config.js. Restarting the server to apply the changes...'',
      WorkerNew 1, StartServerCall 1 plain_options, PreflightCall True] \<and>
   map w_status (workers (some_session overlap_events)) = [Serving, Serving] \<and>
   runningServer (some_session overlap_events) = Some 1 \<and>
   tasks (some_session overlap_events) = [] \<and>
   exited (some_session overlap_events) = None"
  by code_simp

end
